theory Spec2Isabelle
  imports Complex_Main
begin

section \<open>Python values shared by the three modules\<close>

text \<open>
  A raised exception: its class and \<^verbatim>\<open>str(e)\<close>. Only subclasses of
  \<^verbatim>\<open>Exception\<close> are modelled (\<^verbatim>\<open>KeyboardInterrupt\<close> and \<^verbatim>\<open>SystemExit\<close> are not).
\<close>

datatype exn_class =
  OSError | PermissionError | ConnectionError | Timeout | JSONDecodeError
  | KeyError | TypeError | AttributeError | ValueError | OtherError

datatype exn = Exn exn_class string

text \<open>
  A decoded JSON document, as \<^verbatim>\<open>response.json()\<close> returns it. An object is the list
  of the items of the decoded \<^verbatim>\<open>dict\<close>, in its iteration order (keys distinct).
  Numbers are reals: Python's \<^verbatim>\<open>int\<close> and \<^verbatim>\<open>float\<close> are not told apart.
\<close>

datatype json =
  JNull | JBool bool | JNum real | JStr string | JArr "json list"
  | JObj "(string \<times> json) list"

text \<open>
  The outcome of \<^verbatim>\<open>requests.get\<close>: it raises, or returns a response with a status
  code and a body; the body is \<^verbatim>\<open>None\<close> when it is not valid JSON
  (\<^verbatim>\<open>response.json()\<close> raises then).
\<close>

datatype http_result = Raised exn | Response int "json option"

section \<open>The rolling sample window (emotion\_webcam.py)\<close>

text \<open>
  One entry of the window, as \<^verbatim>\<open>webcam_loop\<close> builds it:
  \<^verbatim>\<open>{"timestamp": now, "emotion": out["emotion"], "confidence": out["confidence"]}\<close>.
  Python floats are modelled as reals (no NaN, no infinities).
\<close>

record sample =
  timestamp :: real
  emotion :: string
  confidence :: real

text \<open>
  \<^verbatim>\<open>collections.deque(maxlen=n).append(x)\<close>: the element is added on the right,
  and if the deque is then longer than \<^verbatim>\<open>maxlen\<close> one element is dropped on the left.
\<close>

definition deque_append :: "nat \<Rightarrow> 'a list \<Rightarrow> 'a \<Rightarrow> 'a list" where
  "deque_append maxlen d x =
     (let d' = d @ [x] in if maxlen < length d' then tl d' else d')"

text \<open>\<^verbatim>\<open>emotion_window = deque(maxlen=5)\<close>\<close>

definition emotion_window_maxlen :: nat where
  "emotion_window_maxlen = 5"

text \<open>
  The part of the state of \<^verbatim>\<open>webcam_loop\<close> that the window depends on: the window
  itself and \<^verbatim>\<open>last_sample_time\<close>.
\<close>

record loop_state =
  emotion_window :: "sample list"
  last_sample_time :: real

text \<open>
  One iteration of the loop body. \<^verbatim>\<open>cap.read()\<close> either fails (the iteration is
  skipped by \<^verbatim>\<open>continue\<close>) or yields a frame, for which the classifier returns a
  label and a confidence at wall-clock time \<^verbatim>\<open>now\<close>.
\<close>

datatype tick = ReadFailed | Frame real string real

fun loop_iter :: "loop_state \<Rightarrow> tick \<Rightarrow> loop_state" where
  "loop_iter s ReadFailed = s"
| "loop_iter s (Frame now emo conf) =
     (if now - last_sample_time s \<ge> 1.0
      then s\<lparr>emotion_window :=
               deque_append emotion_window_maxlen (emotion_window s)
                 \<lparr>timestamp = now, emotion = emo, confidence = conf\<rparr>,
             last_sample_time := now\<rparr>
      else s)"

definition webcam_loop :: "real \<Rightarrow> tick list \<Rightarrow> loop_state" where
  "webcam_loop t0 ticks =
     foldl loop_iter \<lparr>emotion_window = [], last_sample_time = t0\<rparr> ticks"

text \<open>
  The samples that a run of the loop appends, in the order of the appends: a frame is
  sampled when at least one second has passed since \<^verbatim>\<open>last_sample_time\<close>. This
  list is the reference the window is compared with.
\<close>

fun sampled :: "real \<Rightarrow> tick list \<Rightarrow> sample list" where
  "sampled lst [] = []"
| "sampled lst (ReadFailed # ts) = sampled lst ts"
| "sampled lst (Frame now emo conf # ts) =
     (if now - lst \<ge> 1.0
      then \<lparr>timestamp = now, emotion = emo, confidence = conf\<rparr> # sampled now ts
      else sampled lst ts)"

section \<open>The process supervisor (controller.py)\<close>

text \<open>A \<^verbatim>\<open>subprocess.Popen\<close> object, identified by the pid of its child.\<close>

datatype popen = Popen (popen_pid: nat)

datatype signal = CTRL_BREAK_EVENT | SIGTERM | SIGKILL

text \<open>
  What the supervisor does to the outside world, in order: a \<^verbatim>\<open>Popen\<close> call with its
  argument list and creation flags, a signal sent to a child, and the return of the
  readiness probe with its value.
\<close>

datatype event =
  Launch "string list" nat
  | Signal signal popen
  | Probe bool

text \<open>
  The state the module works on: the registry \<^verbatim>\<open>PROCS\<close> (a dict whose values are a
  \<^verbatim>\<open>Popen\<close> or \<^verbatim>\<open>None\<close>), the children of this process that have not exited
  (what \<^verbatim>\<open>poll()\<close> observes), the number of HTTP requests made so far, and the
  log of events.
\<close>

record state =
  PROCS :: "string \<rightharpoonup> popen option"
  alive :: "nat set"
  requests :: nat
  trace :: "event list"

text \<open>One request of the readiness probe: how long it took, and its outcome.\<close>

record attempt =
  took_ms :: nat
  reply :: http_result

text \<open>
  The environment. Its behaviour is not constrained: every field is an arbitrary
  function, so a statement proved for all environments covers every behaviour of the
  operating system and of the network.
  \<^item> \<^verbatim>\<open>os.name\<close>, \<^verbatim>\<open>sys.executable\<close>, \<^verbatim>\<open>os.path.exists\<close>;
  \<^item> \<^verbatim>\<open>subprocess.Popen(args, creationflags=...)\<close>: raises, or returns the new object
    and the children alive afterwards;
  \<^item> \<^verbatim>\<open>send_signal\<close>/\<^verbatim>\<open>terminate\<close>/\<^verbatim>\<open>kill\<close>: raises, or returns the children alive
    afterwards;
  \<^item> \<^verbatim>\<open>time.sleep(0.8)\<close>: the children alive after the grace period;
  \<^item> the \<open>i\<close>-th HTTP request to \<^verbatim>\<open>http://127.0.0.1:5000/emotion\<close>;
  \<^item> the children that exit on their own between two liveness polls of one status
    query: \<open>exits e k\<close> are those that exit after the \<open>k\<close>-th poll and before the
    next one.
\<close>

record env =
  os_name :: string
  executable :: string
  path_exists :: "string \<Rightarrow> bool"
  spawn :: "string list \<Rightarrow> nat \<Rightarrow> nat set \<Rightarrow> exn + popen \<times> nat set"
  deliver :: "signal \<Rightarrow> popen \<Rightarrow> nat set \<Rightarrow> exn + nat set"
  grace :: "nat set \<Rightarrow> nat set"
  emotion_api :: "nat \<Rightarrow> attempt"
  exits :: "nat \<Rightarrow> nat set"

text \<open>The dicts that the operations return: \<^verbatim>\<open>{"ok": ..., "message": ..., "pid": ...}\<close>
  (\<open>pid = None\<close> when the key is absent).\<close>

record result =
  ok :: bool
  message :: string
  pid :: "nat option"

text \<open>\<^verbatim>\<open>PROCS.get(name)\<close>: \<^verbatim>\<open>None\<close> for a missing key and for a key bound to \<^verbatim>\<open>None\<close>.\<close>

definition procs_get :: "state \<Rightarrow> string \<Rightarrow> popen option" where
  "procs_get s name = (case PROCS s name of None \<Rightarrow> None | Some v \<Rightarrow> v)"

text \<open>\<^verbatim>\<open>p.poll() is None\<close>: the child has not exited.\<close>

definition poll_is_None :: "popen \<Rightarrow> state \<Rightarrow> bool" where
  "poll_is_None p s = (popen_pid p \<in> alive s)"

definition is_running :: "string \<Rightarrow> state \<Rightarrow> bool" where
  "is_running name s =
     (case procs_get s name of None \<Rightarrow> False | Some p \<Rightarrow> poll_is_None p s)"

definition CREATE_NEW_PROCESS_GROUP :: nat where
  "CREATE_NEW_PROCESS_GROUP = 512"

text \<open>
  \<^verbatim>\<open>start_process\<close>. The \<^verbatim>\<open>Popen\<close> call is not inside a \<^verbatim>\<open>try\<close>: when it raises,
  the exception leaves the function (\<open>Inl\<close>). \<^verbatim>\<open>PROCS[name].pid\<close> raises
  \<^verbatim>\<open>KeyError\<close> on a missing key and \<^verbatim>\<open>AttributeError\<close> on \<^verbatim>\<open>None\<close>.
\<close>

definition start_process ::
  "env \<Rightarrow> string \<Rightarrow> string \<Rightarrow> state \<Rightarrow> (exn + result) \<times> state" where
  "start_process e name script s =
     (if is_running name s then
        (case PROCS s name of
           None \<Rightarrow> (Inl (Exn KeyError name), s)
         | Some None \<Rightarrow> (Inl (Exn AttributeError ''pid''), s)
         | Some (Some p) \<Rightarrow>
             (Inr \<lparr>ok = True, message = name @ '' already running'',
                   pid = Some (popen_pid p)\<rparr>, s))
      else if \<not> path_exists e script then
        (Inr \<lparr>ok = False, message = ''Missing file: '' @ script, pid = None\<rparr>, s)
      else
        (let creationflags = (if os_name e = ''nt'' then CREATE_NEW_PROCESS_GROUP else 0);
             args = [executable e, script];
             s1 = s\<lparr>trace := trace s @ [Launch args creationflags]\<rparr>
         in case spawn e args creationflags (alive s) of
              Inl x \<Rightarrow> (Inl x, s1)
            | Inr (p, live) \<Rightarrow>
                (Inr \<lparr>ok = True, message = ''Started '' @ name,
                      pid = Some (popen_pid p)\<rparr>,
                 s1\<lparr>alive := live, PROCS := (PROCS s1)(name \<mapsto> Some p)\<rparr>)))"

text \<open>
  One call of a signalling primitive (\<^verbatim>\<open>p.send_signal\<close>, \<^verbatim>\<open>p.terminate\<close>,
  \<^verbatim>\<open>p.kill\<close>): the call is logged; it raises (\<open>Some\<close>) or changes the set of live
  children.
\<close>

definition send_signal ::
  "env \<Rightarrow> signal \<Rightarrow> popen \<Rightarrow> state \<Rightarrow> exn option \<times> state" where
  "send_signal e sig p s =
     (let s1 = s\<lparr>trace := trace s @ [Signal sig p]\<rparr>
      in case deliver e sig p (alive s) of
           Inl x \<Rightarrow> (Some x, s1)
         | Inr live \<Rightarrow> (None, s1\<lparr>alive := live\<rparr>))"

text \<open>\<^verbatim>\<open>time.sleep(0.8)\<close>\<close>

definition sleep_grace :: "env \<Rightarrow> state \<Rightarrow> state" where
  "sleep_grace e s = s\<lparr>alive := grace e (alive s)\<rparr>"

text \<open>
  The body of the \<^verbatim>\<open>try\<close> block of \<^verbatim>\<open>stop_process\<close>: graceful request, grace
  period, forced kill if the child is still there, then the registry entry is cleared.
  \<open>Inl\<close> is an exception raised inside the block, with the state reached by then.
\<close>

definition stop_try ::
  "env \<Rightarrow> string \<Rightarrow> popen \<Rightarrow> state \<Rightarrow> (exn + result) \<times> state" where
  "stop_try e name p s =
     (case send_signal e (if os_name e = ''nt'' then CTRL_BREAK_EVENT else SIGTERM) p s of
        (Some x, s1) \<Rightarrow> (Inl x, s1)
      | (None, s1) \<Rightarrow>
          (let s2 = sleep_grace e s1 in
           case (if poll_is_None p s2 then send_signal e SIGKILL p s2 else (None, s2)) of
             (Some x, s3) \<Rightarrow> (Inl x, s3)
           | (None, s3) \<Rightarrow>
               (Inr \<lparr>ok = True, message = ''Stopped '' @ name, pid = None\<rparr>,
                s3\<lparr>PROCS := (PROCS s3)(name \<mapsto> None)\<rparr>)))"

fun exn_str :: "exn \<Rightarrow> string" where
  "exn_str (Exn c m) = m"

text \<open>
  \<^verbatim>\<open>stop_process\<close>. When the \<^verbatim>\<open>try\<close> block raises, the handler returns the failure
  dict.
\<close>

definition stop_process :: "env \<Rightarrow> string \<Rightarrow> state \<Rightarrow> result \<times> state" where
  "stop_process e name s =
     (case procs_get s name of
        None \<Rightarrow> (\<lparr>ok = True, message = name @ '' not running'', pid = None\<rparr>, s)
      | Some p \<Rightarrow>
          if \<not> poll_is_None p s then
            (\<lparr>ok = True, message = name @ '' already stopped'', pid = None\<rparr>,
             s\<lparr>PROCS := (PROCS s)(name \<mapsto> None)\<rparr>)
          else
            (case stop_try e name p s of
               (Inr r, s') \<Rightarrow> (r, s')
             | (Inl x, s') \<Rightarrow>
                 (\<lparr>ok = False, message = ''Stop failed: '' @ exn_str x, pid = None\<rparr>,
                  s')))"

subsection \<open>The readiness probe\<close>

text \<open>
  The \<^verbatim>\<open>try\<close> block of the loop body returns \<^verbatim>\<open>True\<close> exactly when the request did
  not raise and \<^verbatim>\<open>r.status_code == 200\<close>; everything else falls through to the sleep.
\<close>

definition ready :: "http_result \<Rightarrow> bool" where
  "ready r = (case r of Raised x \<Rightarrow> False | Response code body \<Rightarrow> code = 200)"

text \<open>
  The loop of \<^verbatim>\<open>wait_for_emotion_api\<close>. \<open>elapsed\<close> is \<^verbatim>\<open>time.time() - start\<close> in
  seconds at the loop test; one iteration takes the time of its request plus the
  \<^verbatim>\<open>time.sleep(0.2)\<close>. The result is the returned boolean and the index of the next
  request.
\<close>

function wait_loop :: "env \<Rightarrow> real \<Rightarrow> nat \<Rightarrow> real \<Rightarrow> bool \<times> nat" where
  "wait_loop e timeout i elapsed =
     (if elapsed < timeout then
        if ready (reply (emotion_api e i)) then (True, Suc i)
        else wait_loop e timeout (Suc i)
               (elapsed + real (took_ms (emotion_api e i)) / 1000 + 0.2)
      else (False, i))"
  by pat_completeness auto
termination
proof (relation "measure (\<lambda>(e, timeout, i, elapsed). nat \<lceil>(timeout - elapsed) * 5\<rceil>)",
       goal_cases)
  case 1
  show ?case by simp
next
  case (2 e timeout i elapsed)
  define a where "a = (timeout - elapsed) * 5"
  define b where
    "b = (timeout - (elapsed + real (took_ms (emotion_api e i)) / 1000 + 0.2)) * 5"
  have "0 < a" using 2 by (simp add: a_def)
  then have pos: "1 \<le> \<lceil>a\<rceil>" by linarith
  have "b \<le> a - 1" by (simp add: a_def b_def algebra_simps)
  then have "\<lceil>b\<rceil> \<le> \<lceil>a - 1\<rceil>" by (rule ceiling_mono)
  then have "\<lceil>b\<rceil> \<le> \<lceil>a\<rceil> - 1" by simp
  with pos have "nat \<lceil>b\<rceil> < nat \<lceil>a\<rceil>" by linarith
  then show ?case by (simp add: a_def b_def)
qed

definition wait_for_emotion_api :: "env \<Rightarrow> real \<Rightarrow> state \<Rightarrow> bool \<times> state" where
  "wait_for_emotion_api e timeout s =
     (case wait_loop e timeout (requests s) 0 of
        (b, i) \<Rightarrow> (b, s\<lparr>requests := i, trace := trace s @ [Probe b]\<rparr>))"

subsection \<open>The HTTP handlers\<close>


text \<open>\<^verbatim>\<open>PROCS[name].pid if is_running(name) else None\<close>\<close>

definition pid_if_running :: "string \<Rightarrow> state \<Rightarrow> nat option" where
  "pid_if_running name s =
     (if is_running name s then map_option popen_pid (procs_get s name) else None)"



text \<open>
  The payload of \<^verbatim>\<open>POST /start\<close>:
  \<^verbatim>\<open>{"emotion": res_emotion, "emotion_api_ready": ok, "bot": res_bot}\<close>.
\<close>

record start_response =
  res_emotion :: result
  emotion_api_ready :: bool
  res_bot :: result

text \<open>
  \<^verbatim>\<open>start\<close>: the webcam service first, then the wait for its API, then the bot only
  if the wait succeeded. An exception of a \<^verbatim>\<open>start_process\<close> call leaves the handler.
\<close>

definition start :: "env \<Rightarrow> state \<Rightarrow> (exn + start_response) \<times> state" where
  "start e s =
     (case start_process e ''emotion'' ''emotion_webcam.py'' s of
        (Inl x, s1) \<Rightarrow> (Inl x, s1)
      | (Inr r_emotion, s1) \<Rightarrow>
          (case wait_for_emotion_api e 30.0 s1 of
             (ready_ok, s2) \<Rightarrow>
               (case (if ready_ok then start_process e ''bot'' ''main_integrated.py'' s2
                      else (Inr \<lparr>ok = False,
                                 message = ''Emotion API did not come up. Bot not started.'',
                                 pid = None\<rparr>, s2)) of
                  (Inl x, s3) \<Rightarrow> (Inl x, s3)
                | (Inr r_bot, s3) \<Rightarrow>
                    (Inr \<lparr>res_emotion = r_emotion, emotion_api_ready = ready_ok,
                          res_bot = r_bot\<rparr>, s3))))"

text \<open>
  \<^verbatim>\<open>stop\<close>: the bot first, then the webcam service. The result is the pair
  \<^verbatim>\<open>(res_bot, res_emotion)\<close> of the returned \<^verbatim>\<open>{"bot": ..., "emotion": ...}\<close>.
\<close>

definition stop :: "env \<Rightarrow> state \<Rightarrow> (result \<times> result) \<times> state" where
  "stop e s =
     (case stop_process e ''bot'' s of
        (r_bot, s1) \<Rightarrow>
          (case stop_process e ''emotion'' s1 of
             (r_emotion, s2) \<Rightarrow> ((r_bot, r_emotion), s2)))"

subsection \<open>Reference notions for the supervisor's properties\<close>

text \<open>The number of \<^verbatim>\<open>Popen\<close> calls in a log.\<close>

fun is_Launch :: "event \<Rightarrow> bool" where
  "is_Launch (Launch args flags) = True"
| "is_Launch ev = False"

definition launch_count :: "event list \<Rightarrow> nat" where
  "launch_count evs = length (filter is_Launch evs)"

text \<open>
  The value of \<^verbatim>\<open>time.time() - start\<close> at the loop test before the \<open>k\<close>-th request
  of a probe whose first request has index \<open>i\<close>.
\<close>

fun start_time :: "env \<Rightarrow> nat \<Rightarrow> nat \<Rightarrow> real" where
  "start_time e i 0 = 0"
| "start_time e i (Suc k) =
     start_time e i k + real (took_ms (emotion_api e (i + k))) / 1000 + 0.2"

text \<open>
  A concrete environment for the evaluated examples: a POSIX host on which every script
  exists, \<^verbatim>\<open>Popen\<close> gives the child the pid 4242, every child dies of the first
  signal it receives and none exits on its own, and the emotion API answers 503 twice
  and then 200.
\<close>

definition demo_env :: env where
  "demo_env =
     \<lparr>os_name = ''posix'', executable = ''/usr/bin/python3'',
      path_exists = (\<lambda>path. True),
      spawn = (\<lambda>args flags live. Inr (Popen 4242, insert 4242 live)),
      deliver = (\<lambda>sig p live. Inr (live - {popen_pid p})),
      grace = (\<lambda>live. live),
      emotion_api = (\<lambda>i. \<lparr>took_ms = 10,
                             reply = Response (if i < 2 then 503 else 200) None\<rparr>),
      exits = (\<lambda>k. {})\<rparr>"

text \<open>The state of a freshly imported module: \<^verbatim>\<open>PROCS = {"emotion": None, "bot": None}\<close>.\<close>

definition initial_state :: state where
  "initial_state =
     \<lparr>PROCS = [''emotion'' \<mapsto> None, ''bot'' \<mapsto> None], alive = {}, requests = 0,
      trace = []\<rparr>"

text \<open>
  The graceful request of \<^verbatim>\<open>stop_process\<close> (\<^verbatim>\<open>CTRL_BREAK_EVENT\<close> on Windows,
  \<^verbatim>\<open>terminate()\<close> elsewhere), and the condition "a termination primitive raises" for
  a live child \<open>p\<close>: the graceful request raises, or the child survives the grace
  period and the kill raises.
\<close>

definition graceful_signal :: "env \<Rightarrow> signal" where
  "graceful_signal e = (if os_name e = ''nt'' then CTRL_BREAK_EVENT else SIGTERM)"

definition stop_raises :: "env \<Rightarrow> popen \<Rightarrow> nat set \<Rightarrow> bool" where
  "stop_raises e p live =
     (case deliver e (graceful_signal e) p live of
        Inl x \<Rightarrow> True
      | Inr live1 \<Rightarrow>
          popen_pid p \<in> grace e live1 \<and> isl (deliver e SIGKILL p (grace e live1)))"

text \<open>Further concrete inputs: a state in which the webcam service runs as pid 4242, a
  state whose recorded webcam child (pid 7) has exited, an environment whose signalling
  primitives are refused, and one in which \<^verbatim>\<open>Popen\<close> fails.\<close>

definition running_state :: state where
  "running_state =
     \<lparr>PROCS = [''emotion'' \<mapsto> Some (Popen 4242), ''bot'' \<mapsto> None], alive = {4242},
      requests = 0, trace = []\<rparr>"

definition stale_state :: state where
  "stale_state =
     \<lparr>PROCS = [''emotion'' \<mapsto> Some (Popen 7), ''bot'' \<mapsto> None], alive = {},
      requests = 0, trace = []\<rparr>"

definition denied_env :: env where
  "denied_env =
     demo_env\<lparr>deliver := (\<lambda>sig p live. Inl (Exn PermissionError ''Operation not permitted''))\<rparr>"

definition spawn_fails_env :: env where
  "spawn_fails_env =
     demo_env\<lparr>spawn := (\<lambda>args flags live.
                  Inl (Exn OSError ''[Errno 11] Resource temporarily unavailable''))\<rparr>"


text \<open>Two further environments: in the first, the first two requests are refused
  instead of being answered with 503; in the second, every request times out after ten
  seconds, so that the API never becomes ready.\<close>

definition refused_env :: env where
  "refused_env =
     demo_env\<lparr>emotion_api := (\<lambda>i. \<lparr>took_ms = 10,
        reply = (if i < 2 then Raised (Exn ConnectionError ''Connection refused'')
                 else Response 200 None)\<rparr>)\<rparr>"

definition unreachable_env :: env where
  "unreachable_env =
     demo_env\<lparr>emotion_api := (\<lambda>i. \<lparr>took_ms = 10000,
        reply = Raised (Exn Timeout ''Read timed out'')\<rparr>)\<rparr>"

text \<open>A state in which both services run: the webcam service as pid 4242, the bot as
  pid 4243.\<close>

definition both_running_state :: state where
  "both_running_state =
     \<lparr>PROCS = [''emotion'' \<mapsto> Some (Popen 4242), ''bot'' \<mapsto> Some (Popen 4243)],
      alive = {4242, 4243}, requests = 0, trace = []\<rparr>"

text \<open>
  Three more hosts. On the first the emotion API answers every request with
  \<^verbatim>\<open>204 No Content\<close> after 10 ms. On the second it answers the first request with
  200, but only after 300 ms. On the third the webcam child (pid 4242) exits between the
  second and the third liveness poll of a status query.
\<close>

definition no_content_env :: env where
  "no_content_env =
     demo_env\<lparr>emotion_api := (\<lambda>i. \<lparr>took_ms = 10, reply = Response 204 None\<rparr>)\<rparr>"

definition slow_env :: env where
  "slow_env =
     demo_env\<lparr>emotion_api := (\<lambda>i. \<lparr>took_ms = 300, reply = Response 200 None\<rparr>)\<rparr>"

section \<open>The emotion decision of the bot (main\_integrated.py)\<close>

subsection \<open>Python built-ins used by the decision\<close>

text \<open>
  \<^verbatim>\<open>str.lower\<close> and \<^verbatim>\<open>str.strip\<close> on ASCII text: \<open>A\<close>..\<open>Z\<close> are mapped to
  \<open>a\<close>..\<open>z\<close>, and the characters for which \<^verbatim>\<open>str.isspace\<close> holds (codes 9 to 13,
  28 to 32) are removed at both ends. Text outside ASCII is not modelled.
\<close>

definition lower_char :: "char \<Rightarrow> char" where
  "lower_char c =
     (case map_of (zip ''ABCDEFGHIJKLMNOPQRSTUVWXYZ'' ''abcdefghijklmnopqrstuvwxyz'') c of
        None \<Rightarrow> c
      | Some d \<Rightarrow> d)"

definition lower :: "string \<Rightarrow> string" where
  "lower s = map lower_char s"

definition isspace :: "char \<Rightarrow> bool" where
  "isspace c =
     (c \<in> set [CHR 0x09, CHR 0x0A, CHR 0x0B, CHR 0x0C, CHR 0x0D,
                CHR 0x1C, CHR 0x1D, CHR 0x1E, CHR 0x1F, CHR 0x20])"

definition strip :: "string \<Rightarrow> string" where
  "strip s = rev (dropWhile isspace (rev (dropWhile isspace s)))"

text \<open>
  The built-in \<^verbatim>\<open>max(iterable, key=...)\<close>: \<^verbatim>\<open>ValueError\<close> on an empty iterable;
  otherwise the first item is the candidate, and a later item replaces it only when
  its key is strictly greater. The key function may raise.
\<close>

fun max_loop :: "('a \<Rightarrow> exn + real) \<Rightarrow> 'a \<Rightarrow> real \<Rightarrow> 'a list \<Rightarrow> exn + 'a" where
  "max_loop key maxitem maxval [] = Inr maxitem"
| "max_loop key maxitem maxval (item # items) =
     (case key item of
        Inl x \<Rightarrow> Inl x
      | Inr val \<Rightarrow>
          if val > maxval then max_loop key item val items
          else max_loop key maxitem maxval items)"

definition py_max :: "('a \<Rightarrow> exn + real) \<Rightarrow> 'a list \<Rightarrow> exn + 'a" where
  "py_max key xs =
     (case xs of
        [] \<Rightarrow> Inl (Exn ValueError ''max() arg is an empty sequence'')
      | item # items \<Rightarrow>
          (case key item of
             Inl x \<Rightarrow> Inl x
           | Inr val \<Rightarrow> max_loop key item val items))"

subsection \<open>Operations on decoded JSON\<close>

text \<open>Truthiness, as tested by \<^verbatim>\<open>if not frames\<close>.\<close>

fun truthy :: "json \<Rightarrow> bool" where
  "truthy JNull = False"
| "truthy (JBool b) = b"
| "truthy (JNum x) = (x \<noteq> 0)"
| "truthy (JStr s) = (s \<noteq> [])"
| "truthy (JArr xs) = (xs \<noteq> [])"
| "truthy (JObj kvs) = (kvs \<noteq> [])"

text \<open>\<^verbatim>\<open>payload.get(key, default)\<close>: only a dict has the method.\<close>

fun py_get :: "json \<Rightarrow> string \<Rightarrow> json \<Rightarrow> exn + json" where
  "py_get (JObj kvs) key dflt =
     Inr (case map_of kvs key of None \<Rightarrow> dflt | Some v \<Rightarrow> v)"
| "py_get j key dflt = Inl (Exn AttributeError ''get'')"

text \<open>\<^verbatim>\<open>f[key]\<close> with a string key: \<^verbatim>\<open>KeyError\<close> on a dict without the key,
  \<^verbatim>\<open>TypeError\<close> on every other value.\<close>

fun py_getitem :: "json \<Rightarrow> string \<Rightarrow> exn + json" where
  "py_getitem (JObj kvs) key =
     (case map_of kvs key of None \<Rightarrow> Inl (Exn KeyError key) | Some v \<Rightarrow> Inr v)"
| "py_getitem j key = Inl (Exn TypeError ''subscript'')"

text \<open>\<^verbatim>\<open>for f in frames\<close>: the elements of a list, the characters of a string, the
  keys of a dict; \<^verbatim>\<open>TypeError\<close> on the other values.\<close>

fun py_iter :: "json \<Rightarrow> exn + json list" where
  "py_iter (JArr xs) = Inr xs"
| "py_iter (JStr s) = Inr (map (\<lambda>c. JStr [c]) s)"
| "py_iter (JObj kvs) = Inr (map (\<lambda>kv. JStr (fst kv)) kvs)"
| "py_iter j = Inl (Exn TypeError ''not iterable'')"

text \<open>\<^verbatim>\<open>v.lower()\<close>: only a string has the method.\<close>

fun py_lower :: "json \<Rightarrow> exn + string" where
  "py_lower (JStr s) = Inr (lower s)"
| "py_lower j = Inl (Exn AttributeError ''lower'')"

text \<open>
  What the bot needs from outside: the parser behind \<^verbatim>\<open>float(str)\<close> (\<open>None\<close> when
  it raises \<^verbatim>\<open>ValueError\<close>) and the chat session of the language model, as a
  function of the prompt. A reply is an exception or a response whose \<^verbatim>\<open>text\<close> is a
  string or \<^verbatim>\<open>None\<close>.
\<close>

datatype chat_result = ChatRaises exn | ChatText "string option"

record bot_env =
  float_of_str :: "string \<Rightarrow> real option"
  send_message :: "string \<Rightarrow> chat_result"

text \<open>\<^verbatim>\<open>float(v)\<close>\<close>

fun py_float :: "bot_env \<Rightarrow> json \<Rightarrow> exn + real" where
  "py_float be (JNum x) = Inr x"
| "py_float be (JBool b) = Inr (if b then 1 else 0)"
| "py_float be (JStr s) =
     (case float_of_str be s of
        None \<Rightarrow> Inl (Exn ValueError ''could not convert string to float'')
      | Some x \<Rightarrow> Inr x)"
| "py_float be j = Inl (Exn TypeError ''float() argument'')"

subsection \<open>Grouping the confidences by emotion\<close>

text \<open>
  \<^verbatim>\<open>counts\<close> is a dict from label to the list of its confidences; a dict iterates in
  insertion order, so it is a list of items with distinct keys.
  \<^verbatim>\<open>counts.setdefault(emo, []).append(conf)\<close> appends to the list of an existing key
  and adds a new key at the end.
\<close>

type_synonym counts = "(string \<times> real list) list"

fun setdefault_append :: "counts \<Rightarrow> string \<Rightarrow> real \<Rightarrow> counts" where
  "setdefault_append [] emo conf = [(emo, [conf])]"
| "setdefault_append ((k, vs) # kvs) emo conf =
     (if k = emo then (k, vs @ [conf]) # kvs
      else (k, vs) # setdefault_append kvs emo conf)"

text \<open>The two reads of the loop body:
  \<^verbatim>\<open>emo = f["emotion"].lower()\<close> and \<^verbatim>\<open>conf = float(f["confidence"])\<close>.\<close>

definition read_frame :: "bot_env \<Rightarrow> json \<Rightarrow> exn + string \<times> real" where
  "read_frame be f =
     (case py_getitem f ''emotion'' of
        Inl x \<Rightarrow> Inl x
      | Inr v \<Rightarrow>
          (case py_lower v of
             Inl x \<Rightarrow> Inl x
           | Inr emo \<Rightarrow>
               (case py_getitem f ''confidence'' of
                  Inl x \<Rightarrow> Inl x
                | Inr c \<Rightarrow>
                    (case py_float be c of
                       Inl x \<Rightarrow> Inl x
                     | Inr conf \<Rightarrow> Inr (emo, conf)))))"

text \<open>The loop \<^verbatim>\<open>for f in frames\<close>; the first exception ends it.\<close>

fun group_frames :: "bot_env \<Rightarrow> counts \<Rightarrow> json list \<Rightarrow> exn + counts" where
  "group_frames be counts [] = Inr counts"
| "group_frames be counts (f # fs) =
     (case read_frame be f of
        Inl x \<Rightarrow> Inl x
      | Inr (emo, conf) \<Rightarrow> group_frames be (setdefault_append counts emo conf) fs)"

subsection \<open>The fallback to the language model\<close>

text \<open>The list in \<^verbatim>\<open>llm_emotion_fallback\<close>.\<close>

definition oracle_labels :: "string list" where
  "oracle_labels = [''happy'', ''sad'', ''angry'', ''fear'', ''disgust'', ''surprise'']"

text \<open>The prompt; \<^verbatim>\<open>user_input\<close> is a string or \<^verbatim>\<open>None\<close> (the default), which the
  f-string formats as \<^verbatim>\<open>None\<close>.\<close>

definition prompt :: "string option \<Rightarrow> string" where
  "prompt user_input =
     ''Based on the user's message, choose the ONE most likely emotion.'' @ [CHR 0x0A]
     @ ''Only return ONE word from this list:'' @ [CHR 0x0A]
     @ ''happy, sad, angry, fear, disgust, surprise'' @ [CHR 0x0A, CHR 0x0A]
     @ ''User message: '' @ [CHR 0x27]
     @ (case user_input of None \<Rightarrow> ''None'' | Some t \<Rightarrow> t) @ [CHR 0x27]"

text \<open>
  \<^verbatim>\<open>llm_emotion_fallback\<close>: every exception of the \<^verbatim>\<open>try\<close> block (the call itself,
  or \<^verbatim>\<open>.strip()\<close> on a \<^verbatim>\<open>None\<close> text) is caught and leads to the final
  \<^verbatim>\<open>return "neutral"\<close>.
\<close>

definition llm_emotion_fallback :: "bot_env \<Rightarrow> string option \<Rightarrow> string" where
  "llm_emotion_fallback be user_input =
     (case send_message be (prompt user_input) of
        ChatRaises x \<Rightarrow> ''neutral''
      | ChatText None \<Rightarrow> ''neutral''
      | ChatText (Some text) \<Rightarrow>
          (let emo = lower (strip text)
           in if emo \<in> set oracle_labels then emo else ''neutral''))"

subsection \<open>detect\_emotion\<close>

text \<open>
  The decision on the grouped confidences, from \<^verbatim>\<open>if list(counts.keys()) == ["neutral"]\<close>
  to \<^verbatim>\<open>return best_emotion\<close>.
\<close>

definition decide :: "bot_env \<Rightarrow> string option \<Rightarrow> counts \<Rightarrow> exn + string" where
  "decide be user_input counts =
     (if map fst counts = [''neutral''] then Inr (llm_emotion_fallback be user_input)
      else
        (let non_neutral = filter (\<lambda>kv. fst kv \<noteq> ''neutral'') counts
         in if length non_neutral = 1 then
              (case non_neutral of
                 [] \<Rightarrow> Inl (Exn OtherError ''StopIteration'')
               | kv # rest \<Rightarrow> Inr (fst kv))
            else
              (case py_max (\<lambda>item. py_max Inr (snd item)) non_neutral of
                 Inl x \<Rightarrow> Inl x
               | Inr best \<Rightarrow> Inr (fst best))))"

text \<open>The body of the \<^verbatim>\<open>try\<close> block of \<^verbatim>\<open>detect_emotion\<close>, given the outcome of
  \<^verbatim>\<open>requests.get("http://127.0.0.1:5000/emotion", timeout=1.0)\<close>.\<close>

definition detect_emotion_try ::
  "bot_env \<Rightarrow> http_result \<Rightarrow> string option \<Rightarrow> exn + string" where
  "detect_emotion_try be http user_input =
     (case http of
        Raised x \<Rightarrow> Inl x
      | Response status_code body \<Rightarrow>
          if status_code \<noteq> 200 then Inr ''neutral''
          else
            (case body of
               None \<Rightarrow> Inl (Exn JSONDecodeError ''Expecting value'')
             | Some payload \<Rightarrow>
                 (case py_get payload ''data'' (JArr []) of
                    Inl x \<Rightarrow> Inl x
                  | Inr frames \<Rightarrow>
                      if \<not> truthy frames then Inr ''neutral''
                      else
                        (case py_iter frames of
                           Inl x \<Rightarrow> Inl x
                         | Inr fs \<Rightarrow>
                             (case group_frames be [] fs of
                                Inl x \<Rightarrow> Inl x
                              | Inr counts \<Rightarrow> decide be user_input counts)))))"

text \<open>\<^verbatim>\<open>detect_emotion\<close>: the handler \<^verbatim>\<open>except Exception\<close> returns \<^verbatim>\<open>"neutral"\<close>.
  The result is a sum so that "returns" and "raises" are told apart.\<close>

definition detect_emotion ::
  "bot_env \<Rightarrow> http_result \<Rightarrow> string option \<Rightarrow> exn + string" where
  "detect_emotion be http user_input =
     (case detect_emotion_try be http user_input of
        Inl x \<Rightarrow> Inr ''neutral''
      | Inr emo \<Rightarrow> Inr emo)"

subsection \<open>Reference notions for the decision\<close>

text \<open>\<^verbatim>\<open>CLASSES\<close> of emotion\_webcam.py: the labels the classifier emits.\<close>

definition CLASSES :: "string list" where
  "CLASSES = [''angry'', ''disgust'', ''fear'', ''happy'', ''neutral'', ''sad'', ''surprise'']"

text \<open>
  The JSON document that \<^verbatim>\<open>GET /emotion\<close> of emotion\_webcam.py returns for a window:
  \<^verbatim>\<open>{"window_size": len(emotion_window), "data": list(emotion_window)}\<close>.
\<close>

definition frame_json :: "sample \<Rightarrow> json" where
  "frame_json s =
     JObj [(''timestamp'', JNum (timestamp s)), (''emotion'', JStr (emotion s)),
           (''confidence'', JNum (confidence s))]"

definition window_payload :: "sample list \<Rightarrow> json" where
  "window_payload w =
     JObj [(''window_size'', JNum (real (length w))), (''data'', JArr (map frame_json w))]"

text \<open>The label of a sample as the decision sees it, and the largest confidence among
  the samples of a label.\<close>

definition label :: "sample \<Rightarrow> string" where
  "label s = lower (emotion s)"

definition max_confidence :: "sample list \<Rightarrow> string \<Rightarrow> real" where
  "max_confidence w l = Max (set (map confidence (filter (\<lambda>s. label s = l) w)))"



definition failing_bot_env :: bot_env where
  "failing_bot_env =
     \<lparr>float_of_str = (\<lambda>s. None),
      send_message = (\<lambda>p. ChatRaises (Exn OtherError ''503 UNAVAILABLE''))\<rparr>"

definition smp :: "real \<Rightarrow> string \<Rightarrow> real \<Rightarrow> sample" where
  "smp t l c = \<lparr>timestamp = t, emotion = l, confidence = c\<rparr>"

text \<open>The dict \<^verbatim>\<open>counts\<close> after the loop over the frames of a window, and the list
  of keys that results from adding labels one by one.\<close>

definition group_samples :: "sample list \<Rightarrow> counts" where
  "group_samples w =
     foldl (\<lambda>counts s. setdefault_append counts (label s) (confidence s)) [] w"

definition add_key :: "string list \<Rightarrow> string \<Rightarrow> string list" where
  "add_key ks k = (if k \<in> set ks then ks else ks @ [k])"

text \<open>The frames that \<^verbatim>\<open>detect_emotion\<close> iterates over for a given outcome of the
  request (none when it does not get that far).\<close>

definition frames_of :: "http_result \<Rightarrow> json list" where
  "frames_of http =
     (case http of
        Raised x \<Rightarrow> []
      | Response status_code body \<Rightarrow>
          (case body of
             None \<Rightarrow> []
           | Some payload \<Rightarrow>
               (case py_get payload ''data'' (JArr []) of
                  Inl x \<Rightarrow> []
                | Inr frames \<Rightarrow> (case py_iter frames of Inl x \<Rightarrow> [] | Inr fs \<Rightarrow> fs))))"

section \<open>Properties of the sample window\<close>

lemma length_deque_append:
  "length d \<le> n \<Longrightarrow> length (deque_append n d x) \<le> n"
  by (simp add: deque_append_def Let_def)

lemma deque_append_full:
  "length d = n \<Longrightarrow> deque_append n d x = tl (d @ [x])"
  by (simp add: deque_append_def Let_def)

lemma deque_append_drop:
  "deque_append n (drop (length xs - n) xs) x =
   drop (length (xs @ [x]) - n) (xs @ [x])"
proof (cases "n < Suc (length xs)")
  case True
  then have k: "Suc (length xs) - n = Suc (length xs - n)" by simp
  have "tl (drop (length xs - n) xs @ [x]) = tl (drop (length xs - n) (xs @ [x]))"
    by simp
  also have "\<dots> = drop (Suc (length xs - n)) (xs @ [x])"
    by (simp only: drop_Suc drop_tl)
  finally show ?thesis using True k
    by (simp add: deque_append_def Let_def)
next
  case False
  then show ?thesis by (simp add: deque_append_def Let_def)
qed

lemma foldl_deque_append:
  "foldl (deque_append n) [] xs = drop (length xs - n) xs"
proof (induction xs rule: rev_induct)
  case Nil
  show ?case by simp
next
  case (snoc x xs)
  then show ?case by (simp only: foldl_append foldl.simps deque_append_drop)
qed

lemma loop_iter_window_bound:
  "length (emotion_window s) \<le> emotion_window_maxlen \<Longrightarrow>
   length (emotion_window (loop_iter s t)) \<le> emotion_window_maxlen"
  by (cases t) (simp_all add: length_deque_append)

lemma foldl_loop_iter_window_bound:
  "length (emotion_window s) \<le> emotion_window_maxlen \<Longrightarrow>
   length (emotion_window (foldl loop_iter s ts)) \<le> emotion_window_maxlen"
  by (induction ts arbitrary: s) (simp_all add: loop_iter_window_bound)

lemma foldl_loop_iter_window:
  "emotion_window (foldl loop_iter s ts) =
   foldl (deque_append emotion_window_maxlen) (emotion_window s)
     (sampled (last_sample_time s) ts)"
proof (induction ts arbitrary: s)
  case Nil
  show ?case by simp
next
  case (Cons t ts)
  show ?case by (cases t) (simp_all add: Cons.IH)
qed

text \<open>
  Claim C6. The window never holds more than 5 samples; it always equals the last (at
  most 5) samples that the loop appended, oldest first; an append to a full window drops
  exactly the oldest entry; after 7 appends to the empty window exactly the last 5
  remain, in order.
\<close>

theorem emotion_window_fifo:
  "length (emotion_window (webcam_loop t0 ticks)) \<le> 5
   \<and> emotion_window (webcam_loop t0 ticks) =
       drop (length (sampled t0 ticks) - 5) (sampled t0 ticks)
   \<and> (length d = 5 \<longrightarrow> deque_append emotion_window_maxlen d x = tl d @ [x])
   \<and> (length d < 5 \<longrightarrow> deque_append emotion_window_maxlen d x = d @ [x])
   \<and> (length xs = 7 \<longrightarrow>
        foldl (deque_append emotion_window_maxlen) [] xs = drop 2 xs)"
proof (intro conjI impI)
  show "length (emotion_window (webcam_loop t0 ticks)) \<le> 5"
    using foldl_loop_iter_window_bound
            [of "\<lparr>emotion_window = [], last_sample_time = t0\<rparr>" ticks]
    by (simp add: webcam_loop_def emotion_window_maxlen_def)
  show "emotion_window (webcam_loop t0 ticks) =
        drop (length (sampled t0 ticks) - 5) (sampled t0 ticks)"
    by (simp add: webcam_loop_def foldl_loop_iter_window foldl_deque_append
          emotion_window_maxlen_def)
  show "deque_append emotion_window_maxlen d x = tl d @ [x]" if "length d = 5"
    using that by (cases d) (simp_all add: deque_append_def emotion_window_maxlen_def)
  show "deque_append emotion_window_maxlen d x = d @ [x]" if "length d < 5"
    using that by (simp add: deque_append_def emotion_window_maxlen_def)
  show "foldl (deque_append emotion_window_maxlen) [] xs = drop 2 xs" if "length xs = 7"
    using that by (simp add: foldl_deque_append emotion_window_maxlen_def)
qed

theorem emotion_window_fifo_witness:
  "length [1, 2, 3, 4, 5 :: nat] = 5
   \<and> deque_append emotion_window_maxlen [1, 2, 3, 4, 5 :: nat] 6 = [2, 3, 4, 5, 6]
   \<and> length [1, 2 :: nat] < 5
   \<and> deque_append emotion_window_maxlen [1, 2 :: nat] 3 = [1, 2, 3]
   \<and> length [1, 2, 3, 4, 5, 6, 7 :: nat] = 7
   \<and> foldl (deque_append emotion_window_maxlen) [] [1, 2, 3, 4, 5, 6, 7 :: nat]
       = [3, 4, 5, 6, 7]
   \<and> emotion_window
         (webcam_loop 0
            [Frame 1 ''happy'' 0.5, Frame 1.5 ''sad'' 0.9, ReadFailed,
             Frame 2 ''sad'' 0.6, Frame 3 ''neutral'' 0.7, Frame 4 ''angry'' 0.8,
             Frame 5 ''fear'' 0.9, Frame 6 ''happy'' 0.4, Frame 7 ''neutral'' 0.3])
       = [\<lparr>timestamp = 3, emotion = ''neutral'', confidence = 0.7\<rparr>,
          \<lparr>timestamp = 4, emotion = ''angry'', confidence = 0.8\<rparr>,
          \<lparr>timestamp = 5, emotion = ''fear'', confidence = 0.9\<rparr>,
          \<lparr>timestamp = 6, emotion = ''happy'', confidence = 0.4\<rparr>,
          \<lparr>timestamp = 7, emotion = ''neutral'', confidence = 0.3\<rparr>]"
  using emotion_window_fifo [of 0
      "[Frame 1 ''happy'' 0.5, Frame 1.5 ''sad'' 0.9, ReadFailed,
        Frame 2 ''sad'' 0.6, Frame 3 ''neutral'' 0.7, Frame 4 ''angry'' 0.8,
        Frame 5 ''fear'' 0.9, Frame 6 ''happy'' 0.4, Frame 7 ''neutral'' 0.3]"
      "[1, 2, 3, 4, 5 :: nat]" 6 "[1, 2, 3, 4, 5, 6, 7 :: nat]"]
    emotion_window_fifo [of 0 "[]" "[1, 2 :: nat]" 3 "[]"]
  by simp

section \<open>Properties of the supervisor\<close>

lemma procs_get_Some: "procs_get s name = Some p \<longleftrightarrow> PROCS s name = Some (Some p)"
  by (auto simp: procs_get_def split: option.splits)

lemma is_running_iff:
  "is_running name s \<longleftrightarrow> (\<exists>p. PROCS s name = Some (Some p) \<and> popen_pid p \<in> alive s)"
  by (auto simp: is_running_def procs_get_def poll_is_None_def split: option.splits)

lemma start_process_running:
  "PROCS s name = Some (Some p) \<Longrightarrow> popen_pid p \<in> alive s \<Longrightarrow>
   start_process e name script s =
     (Inr \<lparr>ok = True, message = name @ '' already running'', pid = Some (popen_pid p)\<rparr>, s)"
  by (simp add: start_process_def is_running_iff)

lemma start_process_ok_cases:
  assumes "start_process e name script s = (Inr r, s1)" "ok r"
  shows "(\<exists>p. PROCS s name = Some (Some p) \<and> popen_pid p \<in> alive s \<and> s1 = s
              \<and> pid r = Some (popen_pid p))
         \<or> (\<exists>p. PROCS s1 name = Some (Some p) \<and> pid r = Some (popen_pid p)
              \<and> \<not> is_running name s
              \<and> trace s1 = trace s @ [Launch [executable e, script]
                    (if os_name e = ''nt'' then CREATE_NEW_PROCESS_GROUP else 0)])"
proof (cases "is_running name s")
  case True
  then obtain p where p: "PROCS s name = Some (Some p)" "popen_pid p \<in> alive s"
    by (auto simp: is_running_iff)
  from start_process_running[OF this, of e script] assms p show ?thesis by auto
next
  case False
  with assms show ?thesis
    by (auto simp: start_process_def Let_def split: if_splits sum.splits prod.splits)
qed

text \<open>
  Claim C2. Starting a service that is running (a handle is recorded and its child has
  not exited) returns success with the pid of the recorded handle and changes nothing:
  no \<^verbatim>\<open>Popen\<close> call, same registry. Hence a second call after a successful first
  one, with the child still alive, returns the same pid, and the two calls together
  made at most one \<^verbatim>\<open>Popen\<close> call (exactly one if the service was not running).
\<close>

theorem start_process_idempotent:
  "(is_running name s \<longrightarrow>
      (\<exists>p. PROCS s name = Some (Some p) \<and>
           start_process e name script s =
             (Inr \<lparr>ok = True, message = name @ '' already running'',
                   pid = Some (popen_pid p)\<rparr>, s)))
   \<and> (start_process e name script s = (Inr r1, s1) \<and> ok r1 \<and> is_running name s1 \<longrightarrow>
        (\<exists>r2. start_process e name script s1 = (Inr r2, s1) \<and> ok r2 \<and> pid r2 = pid r1)
        \<and> launch_count (trace s1) \<le> Suc (launch_count (trace s))
        \<and> (\<not> is_running name s \<longrightarrow> launch_count (trace s1) = Suc (launch_count (trace s))))"
proof (intro conjI impI)
  assume "is_running name s"
  then obtain p where p: "PROCS s name = Some (Some p)" "popen_pid p \<in> alive s"
    by (auto simp: is_running_iff)
  from start_process_running[OF this] p(1)
  show "\<exists>p. PROCS s name = Some (Some p) \<and>
           start_process e name script s =
             (Inr \<lparr>ok = True, message = name @ '' already running'',
                   pid = Some (popen_pid p)\<rparr>, s)"
    by blast
next
  assume a: "start_process e name script s = (Inr r1, s1) \<and> ok r1 \<and> is_running name s1"
  then obtain q where q: "PROCS s1 name = Some (Some q)" "popen_pid q \<in> alive s1"
    by (auto simp: is_running_iff)
  have pid1: "pid r1 = Some (popen_pid q)"
    using start_process_ok_cases[of e name script s r1 s1] a q by auto
  show "\<exists>r2. start_process e name script s1 = (Inr r2, s1) \<and> ok r2 \<and> pid r2 = pid r1"
    using start_process_running[OF q, of e script] pid1 by simp
  show "launch_count (trace s1) \<le> Suc (launch_count (trace s))"
    using start_process_ok_cases[of e name script s r1 s1] a
    by (auto simp: launch_count_def)
  show "launch_count (trace s1) = Suc (launch_count (trace s))" if "\<not> is_running name s"
    using start_process_ok_cases[of e name script s r1 s1] a that
    by (auto simp: launch_count_def is_running_iff)
qed

theorem start_process_idempotent_witness:
  "is_running ''emotion'' (snd (start_process demo_env ''emotion'' ''emotion_webcam.py'' initial_state))
   \<and> \<not> is_running ''emotion'' initial_state
   \<and> fst (start_process demo_env ''emotion'' ''emotion_webcam.py'' initial_state)
       = Inr \<lparr>ok = True, message = ''Started emotion'', pid = Some 4242\<rparr>
   \<and> start_process demo_env ''emotion'' ''emotion_webcam.py''
         (snd (start_process demo_env ''emotion'' ''emotion_webcam.py'' initial_state))
       = (Inr \<lparr>ok = True, message = ''emotion already running'', pid = Some 4242\<rparr>,
          snd (start_process demo_env ''emotion'' ''emotion_webcam.py'' initial_state))
   \<and> launch_count (trace (snd (start_process demo_env ''emotion'' ''emotion_webcam.py'' initial_state))) = 1"
  using start_process_idempotent [of "''emotion''"
     "snd (start_process demo_env ''emotion'' ''emotion_webcam.py'' initial_state)"
     demo_env "''emotion_webcam.py''"
     "\<lparr>ok = True, message = ''Started emotion'', pid = Some 4242\<rparr>"
     "snd (start_process demo_env ''emotion'' ''emotion_webcam.py'' initial_state)"]
    start_process_idempotent [of "''emotion''" initial_state
     demo_env "''emotion_webcam.py''"
     "\<lparr>ok = True, message = ''Started emotion'', pid = Some 4242\<rparr>"
     "snd (start_process demo_env ''emotion'' ''emotion_webcam.py'' initial_state)"]
  by (simp add: start_process_def is_running_def procs_get_def poll_is_None_def
        demo_env_def initial_state_def launch_count_def Let_def)

subsection \<open>Stopping a service\<close>

lemma send_signal_frame:
  "send_signal e sig p s = (x, s1) \<Longrightarrow>
   PROCS s1 = PROCS s \<and> requests s1 = requests s \<and> trace s1 = trace s @ [Signal sig p]"
  by (auto simp: send_signal_def Let_def split: sum.splits)

lemma stop_try_frame:
  assumes "stop_try e name p s = (out, s')"
  shows "(\<forall>x. out = Inl x \<longrightarrow> PROCS s' = PROCS s)
       \<and> (\<forall>r. out = Inr r \<longrightarrow> ok r \<and> PROCS s' = (PROCS s)(name \<mapsto> None))
       \<and> (\<exists>evs. trace s' = trace s @ evs \<and> (\<forall>ev\<in>set evs. \<exists>sig. ev = Signal sig p))"
  using assms
  by (auto simp: stop_try_def sleep_grace_def Let_def
           split: prod.splits option.splits if_splits
           dest!: send_signal_frame)

lemma stop_try_ok_iff:
  "isl (fst (stop_try e name p s)) \<longleftrightarrow> stop_raises e p (alive s)"
  by (auto simp: stop_try_def stop_raises_def graceful_signal_def send_signal_def
        sleep_grace_def poll_is_None_def Let_def
        split: sum.splits prod.splits option.splits if_splits)

lemma stop_process_graceful:
  assumes "procs_get s name = Some p" "popen_pid p \<in> alive s"
    and "deliver e (graceful_signal e) p (alive s) = Inr live1"
    and "popen_pid p \<notin> grace e live1"
  shows "stop_process e name s =
           (\<lparr>ok = True, message = ''Stopped '' @ name, pid = None\<rparr>,
            s\<lparr>trace := trace s @ [Signal (graceful_signal e) p],
              alive := grace e live1, PROCS := (PROCS s)(name \<mapsto> None)\<rparr>)"
  using assms
  by (simp add: stop_process_def stop_try_def send_signal_def sleep_grace_def
        poll_is_None_def graceful_signal_def Let_def)

lemma stop_process_forced:
  assumes "procs_get s name = Some p" "popen_pid p \<in> alive s"
    and "deliver e (graceful_signal e) p (alive s) = Inr live1"
    and "popen_pid p \<in> grace e live1"
    and "deliver e SIGKILL p (grace e live1) = Inr live2"
  shows "stop_process e name s =
           (\<lparr>ok = True, message = ''Stopped '' @ name, pid = None\<rparr>,
            s\<lparr>trace := trace s @ [Signal (graceful_signal e) p, Signal SIGKILL p],
              alive := live2, PROCS := (PROCS s)(name \<mapsto> None)\<rparr>)"
  using assms
  by (simp add: stop_process_def stop_try_def send_signal_def sleep_grace_def
        poll_is_None_def graceful_signal_def Let_def)

lemma stop_process_trace:
  assumes "stop_process e name s = (r, s')"
  shows "(\<exists>evs. trace s' = trace s @ evs
            \<and> (\<forall>ev\<in>set evs. \<exists>sig p. ev = Signal sig p \<and> procs_get s name = Some p))
       \<and> (\<forall>other. other \<noteq> name \<longrightarrow> PROCS s' other = PROCS s other)"
proof (cases "procs_get s name")
  case None
  with assms show ?thesis by (auto simp: stop_process_def)
next
  case (Some p)
  obtain out s1 where st: "stop_try e name p s = (out, s1)"
    by (cases "stop_try e name p s")
  from stop_try_frame[OF st] assms Some st show ?thesis
    by (cases out) (auto simp: stop_process_def split: if_splits)
qed

lemma stop_process_outcome:
  assumes a: "stop_process e name s = (r, s')"
  shows "(ok r \<longrightarrow> procs_get s' name = None)
   \<and> (\<not> ok r \<longrightarrow> PROCS s' = PROCS s)
   \<and> (procs_get s name = None \<longrightarrow> ok r \<and> s' = s)
   \<and> (\<forall>p. procs_get s name = Some p \<and> popen_pid p \<notin> alive s \<longrightarrow>
          ok r \<and> trace s' = trace s)
   \<and> (\<forall>p. procs_get s name = Some p \<and> popen_pid p \<in> alive s \<longrightarrow>
          (ok r \<longleftrightarrow> \<not> stop_raises e p (alive s)))"
proof (cases "procs_get s name")
  case None
  with a show ?thesis by (auto simp: stop_process_def)
next
  case (Some p)
  show ?thesis
  proof (cases "popen_pid p \<in> alive s")
    case False
    with a Some show ?thesis
      by (auto simp: stop_process_def poll_is_None_def procs_get_def)
  next
    case True
    obtain out s1 where st: "stop_try e name p s = (out, s1)"
      by (cases "stop_try e name p s")
    note fr = stop_try_frame[OF st]
    have iff: "isl out \<longleftrightarrow> stop_raises e p (alive s)"
      using stop_try_ok_iff[of e name p s] st by simp
    show ?thesis
    proof (cases out)
      case (Inl x)
      with a Some True st fr iff show ?thesis
        by (auto simp: stop_process_def poll_is_None_def)
    next
      case (Inr r0)
      with a Some True st fr iff show ?thesis
        by (auto simp: stop_process_def poll_is_None_def procs_get_def)
    qed
  qed
qed

lemma stop_process_paths:
  assumes a: "stop_process e name s = (r, s')"
  shows "(\<forall>p live1. procs_get s name = Some p \<and> popen_pid p \<in> alive s
          \<and> deliver e (graceful_signal e) p (alive s) = Inr live1
          \<and> popen_pid p \<notin> grace e live1 \<longrightarrow>
          ok r \<and> trace s' = trace s @ [Signal (graceful_signal e) p])
   \<and> (\<forall>p live1 live2. procs_get s name = Some p \<and> popen_pid p \<in> alive s
          \<and> deliver e (graceful_signal e) p (alive s) = Inr live1
          \<and> popen_pid p \<in> grace e live1
          \<and> deliver e SIGKILL p (grace e live1) = Inr live2 \<longrightarrow>
          ok r \<and> trace s' = trace s @ [Signal (graceful_signal e) p, Signal SIGKILL p])"
proof (intro conjI allI impI)
  fix p live1
  assume h: "procs_get s name = Some p \<and> popen_pid p \<in> alive s
        \<and> deliver e (graceful_signal e) p (alive s) = Inr live1
        \<and> popen_pid p \<notin> grace e live1"
  then have "stop_process e name s =
         (\<lparr>ok = True, message = ''Stopped '' @ name, pid = None\<rparr>,
          s\<lparr>trace := trace s @ [Signal (graceful_signal e) p],
            alive := grace e live1, PROCS := (PROCS s)(name \<mapsto> None)\<rparr>)"
    by (intro stop_process_graceful) simp_all
  with a show "ok r" "trace s' = trace s @ [Signal (graceful_signal e) p]" by auto
next
  fix p live1 live2
  assume h: "procs_get s name = Some p \<and> popen_pid p \<in> alive s
        \<and> deliver e (graceful_signal e) p (alive s) = Inr live1
        \<and> popen_pid p \<in> grace e live1
        \<and> deliver e SIGKILL p (grace e live1) = Inr live2"
  then have "stop_process e name s =
         (\<lparr>ok = True, message = ''Stopped '' @ name, pid = None\<rparr>,
          s\<lparr>trace := trace s @ [Signal (graceful_signal e) p, Signal SIGKILL p],
            alive := live2, PROCS := (PROCS s)(name \<mapsto> None)\<rparr>)"
    by (intro stop_process_forced[where ?live1.0 = live1]) simp_all
  with a show "ok r"
    "trace s' = trace s @ [Signal (graceful_signal e) p, Signal SIGKILL p]" by auto
qed

text \<open>
  Claim C3. A call of \<^verbatim>\<open>stop_process\<close> that reports success leaves no handle recorded
  for the service, and one that reports failure leaves the registry as it was. It
  succeeds when nothing is recorded (nothing changes), when the recorded child has
  already exited (no signal is sent), when the child is gone after the graceful request
  and the grace period (one signal), and when it survives and is killed (two signals).
  For a live child it fails exactly when a termination primitive raises.
\<close>

theorem stop_process_terminal:
  "stop_process e name s = (r, s') \<Longrightarrow>
     (ok r \<longrightarrow> procs_get s' name = None)
   \<and> (\<not> ok r \<longrightarrow> PROCS s' = PROCS s)
   \<and> (procs_get s name = None \<longrightarrow> ok r \<and> s' = s)
   \<and> (\<forall>p. procs_get s name = Some p \<and> popen_pid p \<notin> alive s \<longrightarrow>
          ok r \<and> trace s' = trace s)
   \<and> (\<forall>p. procs_get s name = Some p \<and> popen_pid p \<in> alive s \<longrightarrow>
          (ok r \<longleftrightarrow> \<not> stop_raises e p (alive s)))
   \<and> (\<forall>p live1. procs_get s name = Some p \<and> popen_pid p \<in> alive s
          \<and> deliver e (graceful_signal e) p (alive s) = Inr live1
          \<and> popen_pid p \<notin> grace e live1 \<longrightarrow>
          ok r \<and> trace s' = trace s @ [Signal (graceful_signal e) p])
   \<and> (\<forall>p live1 live2. procs_get s name = Some p \<and> popen_pid p \<in> alive s
          \<and> deliver e (graceful_signal e) p (alive s) = Inr live1
          \<and> popen_pid p \<in> grace e live1
          \<and> deliver e SIGKILL p (grace e live1) = Inr live2 \<longrightarrow>
          ok r \<and> trace s' = trace s @ [Signal (graceful_signal e) p, Signal SIGKILL p])"
proof -
  assume a: "stop_process e name s = (r, s')"
  from stop_process_outcome[OF a] stop_process_paths[OF a] show ?thesis
    by (intro conjI) blast+
qed

theorem stop_process_terminal_witness:
  "ok (fst (stop_process demo_env ''emotion'' running_state))
   \<and> procs_get (snd (stop_process demo_env ''emotion'' running_state)) ''emotion'' = None
   \<and> trace (snd (stop_process demo_env ''emotion'' running_state))
       = [Signal SIGTERM (Popen 4242)]
   \<and> \<not> stop_raises demo_env (Popen 4242) {4242}
   \<and> stop_raises denied_env (Popen 4242) {4242}
   \<and> \<not> ok (fst (stop_process denied_env ''emotion'' running_state))
   \<and> PROCS (snd (stop_process denied_env ''emotion'' running_state)) = PROCS running_state
   \<and> procs_get stale_state ''emotion'' = Some (Popen 7)
   \<and> ok (fst (stop_process demo_env ''emotion'' stale_state))
   \<and> procs_get (snd (stop_process demo_env ''emotion'' stale_state)) ''emotion'' = None
   \<and> procs_get initial_state ''bot'' = None
   \<and> stop_process demo_env ''bot'' initial_state
       = (\<lparr>ok = True, message = ''bot not running'', pid = None\<rparr>, initial_state)"
  using
    stop_process_terminal [of demo_env "''emotion''" running_state
      "fst (stop_process demo_env ''emotion'' running_state)"
      "snd (stop_process demo_env ''emotion'' running_state)"]
    stop_process_terminal [of denied_env "''emotion''" running_state
      "fst (stop_process denied_env ''emotion'' running_state)"
      "snd (stop_process denied_env ''emotion'' running_state)"]
    stop_process_terminal [of demo_env "''emotion''" stale_state
      "fst (stop_process demo_env ''emotion'' stale_state)"
      "snd (stop_process demo_env ''emotion'' stale_state)"]
    stop_process_terminal [of demo_env "''bot''" initial_state
      "fst (stop_process demo_env ''bot'' initial_state)"
      "snd (stop_process demo_env ''bot'' initial_state)"]
  by (simp add: stop_process_def stop_try_def send_signal_def sleep_grace_def
        poll_is_None_def procs_get_def stop_raises_def graceful_signal_def
        demo_env_def denied_env_def running_state_def stale_state_def
        initial_state_def Let_def)

subsection \<open>The readiness probe\<close>

lemma start_time_nonneg: "0 \<le> start_time e i k"
  by (induction k) simp_all

lemma start_time_shift:
  "start_time e i (Suc k) =
   real (took_ms (emotion_api e i)) / 1000 + 0.2 + start_time e (Suc i) k"
  by (induction k) simp_all

lemma start_time_mono: "k \<le> k' \<Longrightarrow> start_time e i k \<le> start_time e i k'"
proof (induction k' )
  case 0
  then show ?case by simp
next
  case (Suc k')
  show ?case
  proof (cases "k = Suc k'")
    case True
    then show ?thesis by simp
  next
    case False
    with Suc have "start_time e i k \<le> start_time e i k'" by simp
    then show ?thesis by simp
  qed
qed

declare wait_loop.simps [simp del]

lemma wait_loop_fst:
  "fst (wait_loop e timeout i el) =
   (\<exists>k. el + start_time e i k < timeout \<and> ready (reply (emotion_api e (i + k))))"
proof (induction e timeout i el rule: wait_loop.induct)
  case (1 e timeout i el)
  show ?case
  proof (cases "el < timeout")
    case False
    have "\<not> el + start_time e i k < timeout" for k
      using False start_time_nonneg[of e i k] by linarith
    with False show ?thesis by (simp add: wait_loop.simps[of e timeout i el])
  next
    case lt: True
    show ?thesis
    proof (cases "ready (reply (emotion_api e i))")
      case True
      have "el + start_time e i 0 < timeout \<and> ready (reply (emotion_api e (i + 0)))"
        using lt True by simp
      then have "\<exists>k. el + start_time e i k < timeout \<and> ready (reply (emotion_api e (i + k)))"
        by blast
      with lt True show ?thesis by (simp add: wait_loop.simps[of e timeout i el])
    next
      case False
      let ?d = "real (took_ms (emotion_api e i)) / 1000 + 0.2"
      have step: "fst (wait_loop e timeout i el) =
            (\<exists>k. el + ?d + start_time e (Suc i) k < timeout
                 \<and> ready (reply (emotion_api e (Suc i + k))))"
        using "1.IH"[OF lt False] lt False
        by (simp add: wait_loop.simps[of e timeout i el] add.assoc)
      have "(\<exists>k. el + ?d + start_time e (Suc i) k < timeout
                 \<and> ready (reply (emotion_api e (Suc i + k))))
          = (\<exists>k. el + start_time e i k < timeout \<and> ready (reply (emotion_api e (i + k))))"
        (is "?L = ?R")
      proof
        assume ?L
        then obtain k where k: "el + ?d + start_time e (Suc i) k < timeout"
            "ready (reply (emotion_api e (Suc i + k)))" by blast
        have "el + start_time e i (Suc k) < timeout"
          using k(1) by (simp del: start_time.simps add: start_time_shift algebra_simps)
        moreover have "ready (reply (emotion_api e (i + Suc k)))" using k(2) by simp
        ultimately show ?R by blast
      next
        assume ?R
        then obtain k where k: "el + start_time e i k < timeout"
            "ready (reply (emotion_api e (i + k)))" by blast
        from k(2) False have "k \<noteq> 0" by (cases k) auto
        then obtain k' where k': "k = Suc k'" by (cases k) auto
        have "el + ?d + start_time e (Suc i) k' < timeout"
          using k(1) unfolding k' by (simp del: start_time.simps add: start_time_shift algebra_simps)
        moreover have "ready (reply (emotion_api e (Suc i + k')))" using k(2) k' by simp
        ultimately show ?L by blast
      qed
      with step show ?thesis by simp
    qed
  qed
qed

lemma wait_loop_snd:
  "\<exists>k. snd (wait_loop e timeout i el) = i + k
       \<and> (\<forall>j<k. el + start_time e i j < timeout)
       \<and> (\<forall>j<k - 1. \<not> ready (reply (emotion_api e (i + j))))
       \<and> (if fst (wait_loop e timeout i el)
           then 0 < k \<and> ready (reply (emotion_api e (i + (k - 1))))
           else \<not> el + start_time e i k < timeout
                \<and> (\<forall>j<k. \<not> ready (reply (emotion_api e (i + j)))))"
proof (induction e timeout i el rule: wait_loop.induct)
  case (1 e timeout i el)
  show ?case
  proof (cases "el < timeout")
    case False
    then show ?thesis
      by (intro exI[of _ 0]) (simp add: wait_loop.simps[of e timeout i el])
  next
    case lt: True
    show ?thesis
    proof (cases "ready (reply (emotion_api e i))")
      case True
      with lt show ?thesis
        by (intro exI[of _ 1]) (simp add: wait_loop.simps[of e timeout i el])
    next
      case False
      let ?d = "real (took_ms (emotion_api e i)) / 1000 + 0.2"
      let ?w = "wait_loop e timeout (Suc i) (el + real (took_ms (emotion_api e i)) / 1000 + 0.2)"
      have eq: "wait_loop e timeout i el = ?w"
        using lt False by (simp add: wait_loop.simps[of e timeout i el])
      from "1.IH"[OF lt False] obtain k where k:
        "snd ?w = Suc i + k"
        "\<forall>j<k. el + real (took_ms (emotion_api e i)) / 1000 + 0.2 + start_time e (Suc i) j < timeout"
        "\<forall>j<k - 1. \<not> ready (reply (emotion_api e (Suc i + j)))"
        "if fst ?w then 0 < k \<and> ready (reply (emotion_api e (Suc i + (k - 1))))
         else \<not> el + real (took_ms (emotion_api e i)) / 1000 + 0.2 + start_time e (Suc i) k < timeout
              \<and> (\<forall>j<k. \<not> ready (reply (emotion_api e (Suc i + j))))"
        by blast
      have shift: "el + start_time e i (Suc j) =
           el + real (took_ms (emotion_api e i)) / 1000 + 0.2 + start_time e (Suc i) j" for j
        by (simp del: start_time.simps add: start_time_shift algebra_simps)
      have A: "snd (wait_loop e timeout i el) = i + Suc k" using eq k(1) by simp
      have B: "\<forall>j<Suc k. el + start_time e i j < timeout"
      proof (intro allI impI)
        fix j assume "j < Suc k"
        show "el + start_time e i j < timeout"
        proof (cases j)
          case 0 then show ?thesis using lt by simp
        next
          case (Suc j')
          with \<open>j < Suc k\<close> k(2) have
            "el + real (took_ms (emotion_api e i)) / 1000 + 0.2 + start_time e (Suc i) j' < timeout"
            by simp
          then show ?thesis unfolding Suc shift .
        qed
      qed
      have C: "\<forall>j<Suc k - 1. \<not> ready (reply (emotion_api e (i + j)))"
      proof (intro allI impI)
        fix j assume j: "j < Suc k - 1"
        show "\<not> ready (reply (emotion_api e (i + j)))"
        proof (cases j)
          case 0 then show ?thesis using False by simp
        next
          case (Suc j')
          with j have "j' < k - 1" by simp
          with k(3) have "\<not> ready (reply (emotion_api e (Suc i + j')))" by blast
          then show ?thesis using Suc by simp
        qed
      qed
      have D: "if fst (wait_loop e timeout i el)
           then 0 < Suc k \<and> ready (reply (emotion_api e (i + (Suc k - 1))))
           else \<not> el + start_time e i (Suc k) < timeout
                \<and> (\<forall>j<Suc k. \<not> ready (reply (emotion_api e (i + j))))"
      proof (cases "fst ?w")
        case True
        with k(4) have kk: "0 < k \<and> ready (reply (emotion_api e (Suc i + (k - 1))))"
          by (simp only: if_True)
        then obtain k' where k': "k = Suc k'" by (cases k) auto
        with kk have "ready (reply (emotion_api e (i + k)))" by simp
        with True eq show ?thesis by simp
      next
        case F: False
        with k(4) have n1: "\<not> el + real (took_ms (emotion_api e i)) / 1000 + 0.2 + start_time e (Suc i) k < timeout"
          and n2: "\<forall>j<k. \<not> ready (reply (emotion_api e (Suc i + j)))" by simp_all
        have "\<not> ready (reply (emotion_api e (i + j)))" if "j < Suc k" for j
        proof (cases j)
          case 0 then show ?thesis using False by simp
        next
          case (Suc j')
          with that n2 have "\<not> ready (reply (emotion_api e (Suc i + j')))" by simp
          then show ?thesis using Suc by simp
        qed
        with n1 F eq show ?thesis unfolding shift by simp
      qed
      from A B C D show ?thesis by blast
    qed
  qed
qed

lemma wait_loop_cong:
  "(\<And>k. took_ms (emotion_api e k) = took_ms (emotion_api e' k)
        \<and> ready (reply (emotion_api e k)) = ready (reply (emotion_api e' k))) \<Longrightarrow>
   wait_loop e timeout i el = wait_loop e' timeout i el"
proof (induction e timeout i el rule: wait_loop.induct)
  case (1 e timeout i el)
  show ?case
  proof (cases "el < timeout \<and> \<not> ready (reply (emotion_api e i))")
    case True
    then have "wait_loop e timeout (Suc i) (el + real (took_ms (emotion_api e i)) / 1000 + 0.2)
             = wait_loop e' timeout (Suc i) (el + real (took_ms (emotion_api e i)) / 1000 + 0.2)"
      using "1.IH" "1.prems" by blast
    with True "1.prems"[of i] show ?thesis
      by (simp add: wait_loop.simps[of e timeout i el] wait_loop.simps[of e' timeout i el])
  next
    case False
    with "1.prems"[of i] show ?thesis
      by (auto simp add: wait_loop.simps[of e timeout i el] wait_loop.simps[of e' timeout i el])
  qed
qed

text \<open>
  Claim C7, as stated, fails in two ways. The test of the probe is
  \<^verbatim>\<open>r.status_code == 200\<close>, not "a successful status": on a host whose API answers
  every request with \<^verbatim>\<open>204 No Content\<close> the probe returns \<^verbatim>\<open>False\<close>. And the
  timeout is tested only before a request is sent: with the timeout 0.1 of
  \<^verbatim>\<open>status_payload\<close>, a first request that is answered with 200 after 0.3 s makes
  the probe return \<^verbatim>\<open>True\<close>, although the elapsed time exceeded the timeout before
  any response was observed.
\<close>

theorem wait_for_emotion_api_not_as_claimed:
  "reply (emotion_api no_content_env 0) = Response 204 None
   \<and> \<not> fst (wait_for_emotion_api no_content_env 8.0 initial_state)
   \<and> reply (emotion_api slow_env 0) = Response 200 None
   \<and> (0.1 :: real) < real (took_ms (emotion_api slow_env 0)) / 1000
   \<and> fst (wait_for_emotion_api slow_env 0.1 initial_state)"
proof -
  have "\<not> fst (wait_loop no_content_env 8.0 0 0)"
    by (simp add: wait_loop_fst ready_def no_content_env_def)
  then have "\<not> fst (wait_for_emotion_api no_content_env 8.0 initial_state)"
    by (cases "wait_loop no_content_env 8.0 0 0")
       (simp add: wait_for_emotion_api_def initial_state_def)
  moreover have "fst (wait_for_emotion_api slow_env 0.1 initial_state)"
    by (simp add: wait_for_emotion_api_def wait_loop.simps ready_def slow_env_def
          initial_state_def)
  ultimately show ?thesis by (simp add: no_content_env_def slow_env_def)
qed

text \<open>
  Claim C7, amended. \<^verbatim>\<open>wait_for_emotion_api\<close> is a total function that returns a
  boolean (the loop terminates for every environment and every timeout; it touches
  neither the registry nor the children). It returns \<^verbatim>\<open>True\<close> exactly when some
  request that starts before the timeout has elapsed is answered with status 200,
  however long that answer takes, and it makes no request after the first such answer;
  it returns \<^verbatim>\<open>False\<close> at the first loop test at which the elapsed time has reached
  the timeout without such an answer. A raised exception and a status other than 200
  are both "not ready", and the result depends on the replies only through that
  distinction.
\<close>

theorem wait_for_emotion_api_total:
  "(\<exists>b s'. wait_for_emotion_api e timeout s = (b, s')
        \<and> PROCS s' = PROCS s \<and> alive s' = alive s
        \<and> b = (\<exists>k. start_time e (requests s) k < timeout
                    \<and> ready (reply (emotion_api e (requests s + k))))
        \<and> (\<exists>k. requests s' = requests s + k
               \<and> (\<forall>j<k. start_time e (requests s) j < timeout)
               \<and> (\<forall>j<k - 1. \<not> ready (reply (emotion_api e (requests s + j))))
               \<and> (if b then 0 < k \<and> ready (reply (emotion_api e (requests s + (k - 1))))
                   else \<not> start_time e (requests s) k < timeout
                        \<and> (\<forall>j<k. \<not> ready (reply (emotion_api e (requests s + j)))))))
   \<and> \<not> ready (Raised x)
   \<and> (ready (Response code body) \<longleftrightarrow> code = 200)
   \<and> ((\<forall>k. took_ms (emotion_api e k) = took_ms (emotion_api e' k)
           \<and> ready (reply (emotion_api e k)) = ready (reply (emotion_api e' k))) \<longrightarrow>
        wait_for_emotion_api e timeout s = wait_for_emotion_api e' timeout s)"
proof (intro conjI impI)
  obtain b i where w: "wait_loop e timeout (requests s) 0 = (b, i)"
    by (cases "wait_loop e timeout (requests s) 0")
  have r: "wait_for_emotion_api e timeout s
             = (b, s\<lparr>requests := i, trace := trace s @ [Probe b]\<rparr>)"
    by (simp add: wait_for_emotion_api_def w)
  have b: "b = (\<exists>k. start_time e (requests s) k < timeout
                    \<and> ready (reply (emotion_api e (requests s + k))))"
    using wait_loop_fst[of e timeout "requests s" 0] w by simp
  have i: "\<exists>k. i = requests s + k
               \<and> (\<forall>j<k. start_time e (requests s) j < timeout)
               \<and> (\<forall>j<k - 1. \<not> ready (reply (emotion_api e (requests s + j))))
               \<and> (if b then 0 < k \<and> ready (reply (emotion_api e (requests s + (k - 1))))
                   else \<not> start_time e (requests s) k < timeout
                        \<and> (\<forall>j<k. \<not> ready (reply (emotion_api e (requests s + j)))))"
  proof (cases b)
    case True
    with wait_loop_snd[of e timeout "requests s" 0] w show ?thesis by simp
  next
    case False
    with wait_loop_snd[of e timeout "requests s" 0] w show ?thesis by simp
  qed
  show "\<exists>b s'. wait_for_emotion_api e timeout s = (b, s')
        \<and> PROCS s' = PROCS s \<and> alive s' = alive s
        \<and> b = (\<exists>k. start_time e (requests s) k < timeout
                    \<and> ready (reply (emotion_api e (requests s + k))))
        \<and> (\<exists>k. requests s' = requests s + k
               \<and> (\<forall>j<k. start_time e (requests s) j < timeout)
               \<and> (\<forall>j<k - 1. \<not> ready (reply (emotion_api e (requests s + j))))
               \<and> (if b then 0 < k \<and> ready (reply (emotion_api e (requests s + (k - 1))))
                   else \<not> start_time e (requests s) k < timeout
                        \<and> (\<forall>j<k. \<not> ready (reply (emotion_api e (requests s + j))))))"
    by (rule exI[of _ b], rule exI[of _ "s\<lparr>requests := i, trace := trace s @ [Probe b]\<rparr>"])
       (use r b i in simp)
  show "\<not> ready (Raised x)" by (simp add: ready_def)
  show "ready (Response code body) \<longleftrightarrow> code = 200" by (simp add: ready_def)
  show "wait_for_emotion_api e timeout s = wait_for_emotion_api e' timeout s"
    if "\<forall>k. took_ms (emotion_api e k) = took_ms (emotion_api e' k)
           \<and> ready (reply (emotion_api e k)) = ready (reply (emotion_api e' k))"
    using wait_loop_cong[of e e' timeout "requests s" 0] that
    by (simp add: wait_for_emotion_api_def)
qed

theorem wait_for_emotion_api_total_witness:
  "fst (wait_for_emotion_api demo_env 8.0 initial_state)
   \<and> requests (snd (wait_for_emotion_api demo_env 8.0 initial_state)) = 3
   \<and> \<not> fst (wait_for_emotion_api demo_env 0.1 initial_state)
   \<and> requests (snd (wait_for_emotion_api demo_env 0.1 initial_state)) = 1
   \<and> (\<forall>k. took_ms (emotion_api demo_env k) = took_ms (emotion_api refused_env k)
          \<and> ready (reply (emotion_api demo_env k)) = ready (reply (emotion_api refused_env k)))
   \<and> wait_for_emotion_api refused_env 8.0 initial_state
       = wait_for_emotion_api demo_env 8.0 initial_state"
  using wait_for_emotion_api_total
          [where e = demo_env and timeout = "8.0" and s = initial_state and e' = refused_env]
        wait_for_emotion_api_total
          [where e = demo_env and timeout = "0.1" and s = initial_state and e' = refused_env]
  by (simp add: wait_for_emotion_api_def wait_loop.simps ready_def demo_env_def
        refused_env_def initial_state_def)

subsection \<open>The order of actions in the start and stop handlers\<close>

lemma wait_for_emotion_api_frame:
  "wait_for_emotion_api e t s = (b, s') \<Longrightarrow>
   PROCS s' = PROCS s \<and> alive s' = alive s \<and> trace s' = trace s @ [Probe b]"
  by (auto simp: wait_for_emotion_api_def split: prod.splits)

lemma start_process_trace:
  "start_process e name script s = (out, s') \<Longrightarrow>
   (\<exists>A. trace s' = trace s @ A
        \<and> (A = [] \<or> (\<exists>f. A = [Launch [executable e, script] f])))
   \<and> (\<forall>other. other \<noteq> name \<longrightarrow> PROCS s' other = PROCS s other)"
  by (auto simp: start_process_def Let_def split: if_splits option.splits sum.splits)

lemma launch_after_probe:
  assumes "new = A @ Probe b # B"
    and "A = [] \<or> (\<exists>f. A = [Launch [x0, ''emotion_webcam.py''] f])"
    and "B = [] \<or> (b \<and> (\<exists>f. B = [Launch [x0, ''main_integrated.py''] f]))"
    and "new = pre @ Launch [x, ''main_integrated.py''] g # post"
  shows "Probe True \<in> set pre"
  using assms
  by (auto simp: append_eq_Cons_conv Cons_eq_append_conv append_eq_append_conv2)

lemma no_launch_before_probe:
  assumes "A = [] \<or> (\<exists>f. A = [Launch [x0, ''emotion_webcam.py''] f])"
    and "A = pre @ Launch [x, ''main_integrated.py''] g # post"
  shows False
  using assms by (auto simp: append_eq_Cons_conv Cons_eq_append_conv)

lemma start_trace:
  assumes "start e s = (out, s')"
  shows "(\<exists>A. trace s' = trace s @ A \<and> isl out
            \<and> (A = [] \<or> (\<exists>f. A = [Launch [executable e, ''emotion_webcam.py''] f])))
       \<or> (\<exists>A b B. trace s' = trace s @ A @ Probe b # B
            \<and> (A = [] \<or> (\<exists>f. A = [Launch [executable e, ''emotion_webcam.py''] f]))
            \<and> (B = [] \<or> (b \<and> (\<exists>f. B = [Launch [executable e, ''main_integrated.py''] f])))
            \<and> (\<not> b \<longrightarrow> PROCS s' ''bot'' = PROCS s ''bot'' \<and>
                  (\<exists>r. out = Inr r \<and> \<not> emotion_api_ready r \<and>
                     res_bot r = \<lparr>ok = False,
                        message = ''Emotion API did not come up. Bot not started.'',
                        pid = None\<rparr>)))"
proof -
  obtain o1 s1 where 1: "start_process e ''emotion'' ''emotion_webcam.py'' s = (o1, s1)"
    by (cases "start_process e ''emotion'' ''emotion_webcam.py'' s")
  from start_process_trace[OF 1] obtain A where
    A: "trace s1 = trace s @ A"
       "A = [] \<or> (\<exists>f. A = [Launch [executable e, ''emotion_webcam.py''] f])"
    and f1: "PROCS s1 ''bot'' = PROCS s ''bot''"
    by auto
  show ?thesis
  proof (cases o1)
    case (Inl x)
    with assms 1 have "out = Inl x" "s' = s1" by (simp_all add: start_def)
    with A show ?thesis by auto
  next
    case (Inr r1)
    obtain b s2 where 2: "wait_for_emotion_api e 30.0 s1 = (b, s2)"
      by (cases "wait_for_emotion_api e 30.0 s1")
    note t2 = wait_for_emotion_api_frame[OF 2]
    show ?thesis
    proof (cases b)
      case False
      with assms 1 2 Inr have o: "s' = s2"
        "out = Inr \<lparr>res_emotion = r1, emotion_api_ready = False,
               res_bot = \<lparr>ok = False,
                        message = ''Emotion API did not come up. Bot not started.'',
                        pid = None\<rparr>\<rparr>"
        by (simp_all add: start_def)
      have p: "PROCS s' ''bot'' = PROCS s ''bot''" using f1 t2 o by simp
      have tr: "trace s' = trace s @ A @ Probe b # []" using A(1) t2 o by simp
      have "trace s' = trace s @ A @ Probe b # []
            \<and> (A = [] \<or> (\<exists>f. A = [Launch [executable e, ''emotion_webcam.py''] f]))
            \<and> ([] = [] \<or> (b \<and> (\<exists>f. [] = [Launch [executable e, ''main_integrated.py''] f])))
            \<and> (\<not> b \<longrightarrow> PROCS s' ''bot'' = PROCS s ''bot'' \<and>
                  (\<exists>r. out = Inr r \<and> \<not> emotion_api_ready r \<and>
                     res_bot r = \<lparr>ok = False,
                        message = ''Emotion API did not come up. Bot not started.'',
                        pid = None\<rparr>))"
        using tr A(2) p o by simp
      then show ?thesis by blast
    next
      case True
      obtain o3 s3 where 3: "start_process e ''bot'' ''main_integrated.py'' s2 = (o3, s3)"
        by (cases "start_process e ''bot'' ''main_integrated.py'' s2")
      from start_process_trace[OF 3] obtain B where
        B: "trace s3 = trace s2 @ B"
           "B = [] \<or> (\<exists>f. B = [Launch [executable e, ''main_integrated.py''] f])"
        by auto
      from assms 1 2 3 Inr True have "s' = s3"
        by (auto simp: start_def split: sum.splits)
      then have tr: "trace s' = trace s @ A @ Probe b # B" using A(1) t2 B(1) by simp
      have "trace s' = trace s @ A @ Probe b # B
            \<and> (A = [] \<or> (\<exists>f. A = [Launch [executable e, ''emotion_webcam.py''] f]))
            \<and> (B = [] \<or> (b \<and> (\<exists>f. B = [Launch [executable e, ''main_integrated.py''] f])))
            \<and> (\<not> b \<longrightarrow> PROCS s' ''bot'' = PROCS s ''bot'' \<and>
                  (\<exists>r. out = Inr r \<and> \<not> emotion_api_ready r \<and>
                     res_bot r = \<lparr>ok = False,
                        message = ''Emotion API did not come up. Bot not started.'',
                        pid = None\<rparr>))"
        using tr A(2) B(2) True by simp
      then show ?thesis by blast
    qed
  qed
qed

lemma start_gate:
  assumes "start e s = (out, s')"
  shows "\<exists>new. trace s' = trace s @ new
      \<and> (\<forall>pre x f post. new = pre @ Launch [x, ''main_integrated.py''] f # post \<longrightarrow>
            Probe True \<in> set pre)
      \<and> (Probe False \<in> set new \<longrightarrow>
            (\<exists>r. out = Inr r \<and> \<not> emotion_api_ready r \<and>
                 res_bot r = \<lparr>ok = False,
                    message = ''Emotion API did not come up. Bot not started.'',
                    pid = None\<rparr>)
            \<and> (\<forall>x f. Launch [x, ''main_integrated.py''] f \<notin> set new)
            \<and> PROCS s' ''bot'' = PROCS s ''bot'')"
  using start_trace[OF assms]
proof (rule disjE)
  assume "\<exists>A. trace s' = trace s @ A \<and> isl out
            \<and> (A = [] \<or> (\<exists>f. A = [Launch [executable e, ''emotion_webcam.py''] f]))"
  then obtain A where h: "trace s' = trace s @ A" "isl out"
    "A = [] \<or> (\<exists>f. A = [Launch [executable e, ''emotion_webcam.py''] f])"
    by blast
  have "\<forall>pre x f post. A = pre @ Launch [x, ''main_integrated.py''] f # post \<longrightarrow>
            Probe True \<in> set pre"
    using no_launch_before_probe[OF h(3)] by blast
  moreover have "Probe False \<notin> set A" using h(3) by auto
  ultimately show ?thesis using h(1) by blast
next
  assume "\<exists>A b B. trace s' = trace s @ A @ Probe b # B
            \<and> (A = [] \<or> (\<exists>f. A = [Launch [executable e, ''emotion_webcam.py''] f]))
            \<and> (B = [] \<or> (b \<and> (\<exists>f. B = [Launch [executable e, ''main_integrated.py''] f])))
            \<and> (\<not> b \<longrightarrow> PROCS s' ''bot'' = PROCS s ''bot'' \<and>
                  (\<exists>r. out = Inr r \<and> \<not> emotion_api_ready r \<and>
                     res_bot r = \<lparr>ok = False,
                        message = ''Emotion API did not come up. Bot not started.'',
                        pid = None\<rparr>))"
  then obtain A b B where h: "trace s' = trace s @ A @ Probe b # B"
    "A = [] \<or> (\<exists>f. A = [Launch [executable e, ''emotion_webcam.py''] f])"
    "B = [] \<or> (b \<and> (\<exists>f. B = [Launch [executable e, ''main_integrated.py''] f]))"
    "\<not> b \<longrightarrow> PROCS s' ''bot'' = PROCS s ''bot'' \<and>
        (\<exists>r. out = Inr r \<and> \<not> emotion_api_ready r \<and>
            res_bot r = \<lparr>ok = False,
               message = ''Emotion API did not come up. Bot not started.'',
               pid = None\<rparr>)"
    by blast
  let ?new = "A @ Probe b # B"
  have g: "\<forall>pre x f post. ?new = pre @ Launch [x, ''main_integrated.py''] f # post \<longrightarrow>
            Probe True \<in> set pre"
    using launch_after_probe[OF refl h(2) h(3)] by blast
  have nb: "\<not> b" if "Probe False \<in> set ?new" using that h(2) h(3) by auto
  have nl: "\<forall>x f. Launch [x, ''main_integrated.py''] f \<notin> set ?new" if "\<not> b"
    using that h(2) h(3) by auto
  have "trace s' = trace s @ ?new
      \<and> (\<forall>pre x f post. ?new = pre @ Launch [x, ''main_integrated.py''] f # post \<longrightarrow>
            Probe True \<in> set pre)
      \<and> (Probe False \<in> set ?new \<longrightarrow>
            (\<exists>r. out = Inr r \<and> \<not> emotion_api_ready r \<and>
                 res_bot r = \<lparr>ok = False,
                    message = ''Emotion API did not come up. Bot not started.'',
                    pid = None\<rparr>)
            \<and> (\<forall>x f. Launch [x, ''main_integrated.py''] f \<notin> set ?new)
            \<and> PROCS s' ''bot'' = PROCS s ''bot'')"
    using h(1) g nb nl h(4) by blast
  then show ?thesis by blast
qed

lemma stop_order:
  assumes "stop e s = ((r_bot, r_emotion), s')"
  shows "\<exists>s1 evb eve.
        stop_process e ''bot'' s = (r_bot, s1)
      \<and> stop_process e ''emotion'' s1 = (r_emotion, s')
      \<and> trace s1 = trace s @ evb
      \<and> trace s' = trace s @ evb @ eve
      \<and> (\<forall>ev\<in>set evb. \<exists>sig p. ev = Signal sig p \<and> procs_get s ''bot'' = Some p)
      \<and> (\<forall>ev\<in>set eve. \<exists>sig p. ev = Signal sig p \<and> procs_get s ''emotion'' = Some p)
      \<and> (ok r_bot \<longrightarrow> procs_get s1 ''bot'' = None)"
proof -
  obtain rb s1 where 1: "stop_process e ''bot'' s = (rb, s1)"
    by (cases "stop_process e ''bot'' s")
  obtain re s2 where 2: "stop_process e ''emotion'' s1 = (re, s2)"
    by (cases "stop_process e ''emotion'' s1")
  from assms 1 2 have eq: "rb = r_bot" "re = r_emotion" "s2 = s'"
    by (simp_all add: stop_def)
  from stop_process_trace[OF 1] obtain evb where
    b: "trace s1 = trace s @ evb"
       "\<forall>ev\<in>set evb. \<exists>sig p. ev = Signal sig p \<and> procs_get s ''bot'' = Some p"
    and fb: "PROCS s1 ''emotion'' = PROCS s ''emotion''"
    by auto
  from stop_process_trace[OF 2] obtain eve where
    c: "trace s2 = trace s1 @ eve"
       "\<forall>ev\<in>set eve. \<exists>sig p. ev = Signal sig p \<and> procs_get s1 ''emotion'' = Some p"
    by auto
  have same: "procs_get s1 ''emotion'' = procs_get s ''emotion''"
    using fb by (simp add: procs_get_def)
  have cleared: "ok r_bot \<longrightarrow> procs_get s1 ''bot'' = None"
    using stop_process_outcome[OF 1] eq by simp
  have "stop_process e ''bot'' s = (r_bot, s1)
      \<and> stop_process e ''emotion'' s1 = (r_emotion, s')
      \<and> trace s1 = trace s @ evb
      \<and> trace s' = trace s @ evb @ eve
      \<and> (\<forall>ev\<in>set evb. \<exists>sig p. ev = Signal sig p \<and> procs_get s ''bot'' = Some p)
      \<and> (\<forall>ev\<in>set eve. \<exists>sig p. ev = Signal sig p \<and> procs_get s ''emotion'' = Some p)
      \<and> (ok r_bot \<longrightarrow> procs_get s1 ''bot'' = None)"
    using 1 2 eq b c same cleared by simp
  then show ?thesis by blast
qed

text \<open>
  Claim C5. In the events that one call of \<^verbatim>\<open>start\<close> adds to the log, every launch
  of \<^verbatim>\<open>main_integrated.py\<close> comes after a readiness probe that returned \<^verbatim>\<open>True\<close>;
  when the probe returned \<^verbatim>\<open>False\<close>, the response reports the bot as not started
  with the reason, no launch of the bot is in the log and the registry entry of the bot
  is untouched. One call of \<^verbatim>\<open>stop\<close> is the stop of the bot followed, from the state
  the first one returns, by the stop of the webcam service: all signals to the bot's
  child precede all signals to the webcam child, and after a successful stop of the bot
  its handle is already cleared.
\<close>

theorem start_stop_ordering:
  "(start e s = (out, s') \<longrightarrow>
      (\<exists>new. trace s' = trace s @ new
        \<and> (\<forall>pre x f post. new = pre @ Launch [x, ''main_integrated.py''] f # post \<longrightarrow>
              Probe True \<in> set pre)
        \<and> (Probe False \<in> set new \<longrightarrow>
              (\<exists>r. out = Inr r \<and> \<not> emotion_api_ready r \<and>
                   res_bot r = \<lparr>ok = False,
                      message = ''Emotion API did not come up. Bot not started.'',
                      pid = None\<rparr>)
              \<and> (\<forall>x f. Launch [x, ''main_integrated.py''] f \<notin> set new)
              \<and> PROCS s' ''bot'' = PROCS s ''bot'')))
   \<and> (stop e s = ((r_bot, r_emotion), s'') \<longrightarrow>
      (\<exists>s1 evb eve.
          stop_process e ''bot'' s = (r_bot, s1)
        \<and> stop_process e ''emotion'' s1 = (r_emotion, s'')
        \<and> trace s1 = trace s @ evb
        \<and> trace s'' = trace s @ evb @ eve
        \<and> (\<forall>ev\<in>set evb. \<exists>sig p. ev = Signal sig p \<and> procs_get s ''bot'' = Some p)
        \<and> (\<forall>ev\<in>set eve. \<exists>sig p. ev = Signal sig p \<and> procs_get s ''emotion'' = Some p)
        \<and> (ok r_bot \<longrightarrow> procs_get s1 ''bot'' = None)))"
  using start_gate[of e s out s'] stop_order[of e s r_bot r_emotion s''] by blast

theorem start_stop_ordering_witness:
  "trace (snd (start demo_env initial_state))
     = [Launch [''/usr/bin/python3'', ''emotion_webcam.py''] 0, Probe True,
        Launch [''/usr/bin/python3'', ''main_integrated.py''] 0]
   \<and> trace (snd (start unreachable_env initial_state))
     = [Launch [''/usr/bin/python3'', ''emotion_webcam.py''] 0, Probe False]
   \<and> fst (start unreachable_env initial_state)
     = Inr \<lparr>res_emotion = \<lparr>ok = True, message = ''Started emotion'', pid = Some 4242\<rparr>,
            emotion_api_ready = False,
            res_bot = \<lparr>ok = False,
                       message = ''Emotion API did not come up. Bot not started.'',
                       pid = None\<rparr>\<rparr>
   \<and> PROCS (snd (start unreachable_env initial_state)) ''bot'' = Some None
   \<and> trace (snd (stop demo_env both_running_state))
     = [Signal SIGTERM (Popen 4243), Signal SIGTERM (Popen 4242)]
   \<and> ok (fst (fst (stop demo_env both_running_state)))"
  using
    start_stop_ordering [where e = demo_env and s = initial_state
      and out = "fst (start demo_env initial_state)"
      and s' = "snd (start demo_env initial_state)"
      and r_bot = "fst (fst (stop demo_env initial_state))"
      and r_emotion = "snd (fst (stop demo_env initial_state))"
      and s'' = "snd (stop demo_env initial_state)"]
    start_stop_ordering [where e = unreachable_env and s = initial_state
      and out = "fst (start unreachable_env initial_state)"
      and s' = "snd (start unreachable_env initial_state)"
      and r_bot = "fst (fst (stop unreachable_env initial_state))"
      and r_emotion = "snd (fst (stop unreachable_env initial_state))"
      and s'' = "snd (stop unreachable_env initial_state)"]
    start_stop_ordering [where e = demo_env and s = both_running_state
      and out = "fst (start demo_env both_running_state)"
      and s' = "snd (start demo_env both_running_state)"
      and r_bot = "fst (fst (stop demo_env both_running_state))"
      and r_emotion = "snd (fst (stop demo_env both_running_state))"
      and s'' = "snd (stop demo_env both_running_state)"]
  by (simp add: start_def stop_def start_process_def stop_process_def stop_try_def
        send_signal_def sleep_grace_def wait_for_emotion_api_def wait_loop.simps
        ready_def is_running_def poll_is_None_def procs_get_def
        demo_env_def unreachable_env_def initial_state_def both_running_state_def
        Let_def)

subsection \<open>Launch failures\<close>

lemma start_process_missing_file:
  "\<not> is_running name s \<Longrightarrow> \<not> path_exists e script \<Longrightarrow>
   start_process e name script s =
     (Inr \<lparr>ok = False, message = ''Missing file: '' @ script, pid = None\<rparr>, s)"
  by (simp add: start_process_def)

lemma start_process_spawn_raises:
  "\<not> is_running name s \<Longrightarrow> path_exists e script \<Longrightarrow>
   spawn e [executable e, script]
     (if os_name e = ''nt'' then CREATE_NEW_PROCESS_GROUP else 0) (alive s) = Inl x \<Longrightarrow>
   fst (start_process e name script s) = Inl x
   \<and> PROCS (snd (start_process e name script s)) = PROCS s"
  by (simp add: start_process_def Let_def)

text \<open>
  Claim C8. For a missing script \<^verbatim>\<open>start_process\<close> returns the failure dict and
  changes nothing (\<open>start_process_missing_file\<close>). When the script exists and the
  \<^verbatim>\<open>Popen\<close> call itself raises, no dict is returned: the exception leaves
  \<^verbatim>\<open>start_process\<close> (and the \<^verbatim>\<open>start\<close> handler); the registry is unchanged. The
  evaluation below is at a host on which \<^verbatim>\<open>Popen\<close> fails with \<^verbatim>\<open>OSError\<close>.
\<close>

theorem start_process_spawn_error_escapes:
  "start_process spawn_fails_env ''emotion'' ''emotion_webcam.py'' initial_state
     = (Inl (Exn OSError ''[Errno 11] Resource temporarily unavailable''),
        initial_state\<lparr>trace := [Launch [''/usr/bin/python3'', ''emotion_webcam.py''] 0]\<rparr>)
   \<and> fst (start spawn_fails_env initial_state)
     = Inl (Exn OSError ''[Errno 11] Resource temporarily unavailable'')"
  by (simp add: start_def start_process_def is_running_def procs_get_def
        spawn_fails_env_def demo_env_def initial_state_def Let_def)

subsection \<open>The status query\<close>

lemma is_running_dead:
  "procs_get s name = Some p \<Longrightarrow> popen_pid p \<notin> alive s \<Longrightarrow>
   \<not> is_running name s \<and> pid_if_running name s = None"
  by (simp add: is_running_def pid_if_running_def poll_is_None_def)








section \<open>Properties of the emotion decision\<close>

lemma read_frame_frame_json:
  "read_frame be (frame_json s) = Inr (label s, confidence s)"
  by (simp add: read_frame_def frame_json_def label_def)

lemma group_frames_frame_json:
  "group_frames be counts (map frame_json w) =
   Inr (foldl (\<lambda>counts s. setdefault_append counts (label s) (confidence s)) counts w)"
  by (induction w arbitrary: counts) (simp_all add: read_frame_frame_json)

lemma detect_emotion_try_window:
  "detect_emotion_try be (Response 200 (Some (window_payload w))) ui =
   (if w = [] then Inr ''neutral'' else decide be ui (group_samples w))"
  by (simp add: detect_emotion_try_def window_payload_def group_frames_frame_json
        group_samples_def)

lemma keys_setdefault_append:
  "map fst (setdefault_append c k v) = add_key (map fst c) k"
  by (induction c k v rule: setdefault_append.induct) (auto simp: add_key_def)

lemma map_of_setdefault_append:
  "map_of (setdefault_append c e v) k =
   (if k = e then Some ((case map_of c e of None \<Rightarrow> [] | Some vs \<Rightarrow> vs) @ [v])
    else map_of c k)"
  by (induction c e v rule: setdefault_append.induct) auto

lemma group_samples_snoc:
  "group_samples (w @ [s]) = setdefault_append (group_samples w) (label s) (confidence s)"
  by (simp add: group_samples_def)

lemma keys_group_samples:
  "map fst (group_samples w) = foldl add_key [] (map label w)"
  by (induction w rule: rev_induct)
     (simp_all add: group_samples_snoc keys_setdefault_append, simp add: group_samples_def)

lemma set_foldl_add_key: "set (foldl add_key ks ls) = set ks \<union> set ls"
  by (induction ls arbitrary: ks) (auto simp: add_key_def)

lemma distinct_foldl_add_key: "distinct ks \<Longrightarrow> distinct (foldl add_key ks ls)"
  by (induction ls arbitrary: ks) (auto simp: add_key_def)

lemma map_of_group_samples:
  "map_of (group_samples w) k =
   (if k \<in> label ` set w then Some (map confidence (filter (\<lambda>s. label s = k) w)) else None)"
proof (induction w arbitrary: k rule: rev_induct)
  case Nil
  show ?case by (simp add: group_samples_def)
next
  case (snoc s w)
  show ?case
    by (auto simp: group_samples_snoc map_of_setdefault_append snoc.IH image_iff
        filter_empty_conv split: option.splits)
qed


lemma max_loop_Inr:
  "max_loop Inr m m vs = Inr (Max (insert m (set vs)))"
proof (induction vs arbitrary: m)
  case Nil
  show ?case by simp
next
  case (Cons v vs)
  have ins: "Max (insert m (insert v (set vs))) = max m (Max (insert v (set vs)))"
    by (rule Max_insert) simp_all
  have ins': "Max (insert v (insert m (set vs))) = max v (Max (insert m (set vs)))"
    by (rule Max_insert) simp_all
  have gev: "v \<le> Max (insert v (set vs))" by (rule Max_ge) simp_all
  have gem: "m \<le> Max (insert m (set vs))" by (rule Max_ge) simp_all
  show ?case
  proof (cases "m < v")
    case True
    then have "max_loop Inr m m (v # vs) = Inr (Max (insert v (set vs)))"
      using Cons.IH[of v] by simp
    moreover have "Max (insert m (set (v # vs))) = Max (insert v (set vs))"
    proof -
      have le: "m \<le> Max (insert v (set vs))" using True gev by linarith
      have "Max (insert m (set (v # vs))) = max m (Max (insert v (set vs)))"
        using ins by (simp only: list.set)
      also have "\<dots> = Max (insert v (set vs))" using le by (rule max_absorb2)
      finally show ?thesis .
    qed
    ultimately show ?thesis by (simp only:)
  next
    case False
    then have "max_loop Inr m m (v # vs) = Inr (Max (insert m (set vs)))"
      using Cons.IH[of m] by simp
    moreover have "Max (insert m (set (v # vs))) = Max (insert m (set vs))"
    proof -
      have le: "v \<le> Max (insert m (set vs))" using False gem by linarith
      have "Max (insert m (set (v # vs))) = max v (Max (insert m (set vs)))"
        using ins' by (simp only: list.set insert_commute[of m v])
      also have "\<dots> = Max (insert m (set vs))" using le by (rule max_absorb2)
      finally show ?thesis .
    qed
    ultimately show ?thesis by (simp only:)
  qed
qed

lemma py_max_Inr:
  "vs \<noteq> [] \<Longrightarrow> py_max Inr vs = Inr (Max (set vs))"
  by (cases vs) (simp_all add: py_max_def max_loop_Inr)

lemma max_loop_first_maximal:
  assumes "\<forall>x\<in>set xs. key x = Inr (g x)"
  shows "\<exists>r pre post. max_loop key m (g m) xs = Inr r \<and> m # xs = pre @ r # post
           \<and> (\<forall>x\<in>set pre. g x < g r) \<and> (\<forall>x\<in>set post. g x \<le> g r)"
  using assms
proof (induction xs arbitrary: m)
  case Nil
  have "max_loop key m (g m) [] = Inr m \<and> m # [] = [] @ m # []
        \<and> (\<forall>x\<in>set []. g x < g m) \<and> (\<forall>x\<in>set []. g x \<le> g m)" by simp
  then show ?case by blast
next
  case (Cons x xs)
  then have kx: "key x = Inr (g x)" and rest: "\<forall>y\<in>set xs. key y = Inr (g y)" by simp_all
  show ?case
  proof (cases "g m < g x")
    case True
    from Cons.IH[OF rest, of x] obtain r pre post where
      r: "max_loop key x (g x) xs = Inr r" "x # xs = pre @ r # post"
         "\<forall>y\<in>set pre. g y < g r" "\<forall>y\<in>set post. g y \<le> g r" by blast
    have "g x \<le> g r"
    proof (cases pre)
      case Nil with r(2) show ?thesis by simp
    next
      case (Cons p pre') with r(2) r(3) show ?thesis by auto
    qed
    with True have mr: "g m < g r" by simp
    have step: "max_loop key m (g m) (x # xs) = Inr r" using True kx r(1) by simp
    have dec: "m # x # xs = (m # pre) @ r # post" using r(2) by simp
    have pre: "\<forall>y\<in>set (m # pre). g y < g r" using mr r(3) by simp
    from step dec pre r(4) show ?thesis by blast
  next
    case False
    from Cons.IH[OF rest, of m] obtain r pre post where
      r: "max_loop key m (g m) xs = Inr r" "m # xs = pre @ r # post"
         "\<forall>y\<in>set pre. g y < g r" "\<forall>y\<in>set post. g y \<le> g r" by blast
    have step: "max_loop key m (g m) (x # xs) = Inr r" using False kx r(1) by simp
    show ?thesis
    proof (cases pre)
      case Nil
      with r(2) have rm: "r = m" "post = xs" by simp_all
      have dec: "m # x # xs = [] @ r # (x # xs)" using rm by simp
      have pre: "\<forall>y\<in>set []. g y < g r" by simp
      have post: "\<forall>y\<in>set (x # xs). g y \<le> g r" using r(4) rm False by auto
      from step dec pre post show ?thesis by blast
    next
      case (Cons p pre')
      with r(2) have p: "p = m" "xs = pre' @ r # post" by simp_all
      have "g m < g r" using r(3) Cons p by simp
      then have xr: "g x < g r" using False by simp
      have dec: "m # x # xs = (m # x # pre') @ r # post" using p by simp
      have pre: "\<forall>y\<in>set (m # x # pre'). g y < g r" using r(3) Cons p xr by simp
      from step dec pre r(4) show ?thesis by blast
    qed
  qed
qed

lemma py_max_first_maximal:
  assumes "xs \<noteq> []" "\<forall>x\<in>set xs. key x = Inr (g x)"
  shows "\<exists>r pre post. py_max key xs = Inr r \<and> xs = pre @ r # post
           \<and> (\<forall>x\<in>set pre. g x < g r) \<and> (\<forall>x\<in>set post. g x \<le> g r)"
proof -
  from assms(1) obtain m ms where xs: "xs = m # ms" by (cases xs) auto
  with assms(2) have "key m = Inr (g m)" "\<forall>x\<in>set ms. key x = Inr (g x)" by simp_all
  with max_loop_first_maximal[of ms key g m] xs show ?thesis
    by (simp add: py_max_def)
qed

lemma foldl_add_key_snoc: "foldl add_key ks (ls @ [x]) = add_key (foldl add_key ks ls) x"
  by simp

lemma add_key_in: "x \<in> set ks \<Longrightarrow> add_key ks x = ks"
  by (simp add: add_key_def)

lemma add_key_notin: "x \<notin> set ks \<Longrightarrow> add_key ks x = ks @ [x]"
  by (simp add: add_key_def)

lemma first_seen_order:
  "foldl add_key [] ls = A @ k # B \<Longrightarrow> k' \<in> set B \<Longrightarrow>
   \<exists>i<length ls. ls ! i = k \<and> k' \<notin> set (take i ls)"
proof (induction ls arbitrary: A B rule: rev_induct)
  case Nil
  then show ?case by simp
next
  case (snoc x ls)
  let ?K = "foldl add_key [] ls"
  have setK: "set ?K = set ls" using set_foldl_add_key[of "[]" ls] by simp
  have ext: "\<exists>i<length (ls @ [x]). (ls @ [x]) ! i = k \<and> k' \<notin> set (take i (ls @ [x]))"
    if "\<exists>i<length ls. ls ! i = k \<and> k' \<notin> set (take i ls)"
  proof -
    from that obtain i where i: "i < length ls" "ls ! i = k" "k' \<notin> set (take i ls)" by blast
    then have "i < length (ls @ [x]) \<and> (ls @ [x]) ! i = k \<and> k' \<notin> set (take i (ls @ [x]))"
      by (simp add: nth_append)
    then show ?thesis by blast
  qed
  have pr: "add_key ?K x = A @ k # B"
    using snoc.prems(1) by (simp only: foldl_add_key_snoc)
  show ?case
  proof (cases "x \<in> set ?K")
    case True
    have "?K = A @ k # B" using add_key_in[OF True] pr by simp
    from snoc.IH[OF this snoc.prems(2)] show ?thesis by (rule ext)
  next
    case False
    have eq: "?K @ [x] = A @ k # B" using add_key_notin[OF False] pr by simp
    from snoc.prems(2) have "B \<noteq> []" by auto
    then obtain B' b where B: "B = B' @ [b]" by (cases B rule: rev_cases) auto
    with eq have K: "?K = A @ k # B'" and b: "b = x" by simp_all
    show ?thesis
    proof (cases "k' \<in> set B'")
      case True
      from snoc.IH[OF K True] show ?thesis by (rule ext)
    next
      case F: False
      with snoc.prems(2) B b have k'x: "k' = x" by simp
      have "k \<in> set ls" using K setK by auto
      then obtain i where i: "i < length ls" "ls ! i = k" by (auto simp: in_set_conv_nth)
      have "k' \<notin> set ls" using k'x False setK by simp
      then have "k' \<notin> set (take i ls)" by (auto dest: in_set_takeD)
      with i show ?thesis by (intro ext) blast
    qed
  qed
qed

lemma filter_split:
  "filter P xs = pre @ r # post \<Longrightarrow> \<exists>A B. xs = A @ r # B \<and> set post \<subseteq> set B"
proof (induction pre arbitrary: xs)
  case Nil
  then obtain us vs where "xs = us @ r # vs" "post = filter P vs"
    by (auto simp: filter_eq_Cons_iff)
  then have "xs = us @ r # vs \<and> set post \<subseteq> set vs" by auto
  then show ?case by blast
next
  case (Cons p pre)
  then obtain us vs where uv: "xs = us @ p # vs" "pre @ r # post = filter P vs"
    by (auto simp: filter_eq_Cons_iff)
  from Cons.IH[OF uv(2)[symmetric]] obtain A B where "vs = A @ r # B" "set post \<subseteq> set B"
    by blast
  with uv(1) have "xs = (us @ p # A) @ r # B \<and> set post \<subseteq> set B" by simp
  then show ?case by blast
qed


lemma distinct_keys_group_samples: "distinct (map fst (group_samples w))"
  by (simp add: keys_group_samples distinct_foldl_add_key)

lemma set_keys_group_samples: "fst ` set (group_samples w) = label ` set w"
proof -
  have "set (map fst (group_samples w)) = set (map label w)"
    by (simp only: keys_group_samples set_foldl_add_key) simp
  then show ?thesis by simp
qed

lemma group_samples_item:
  assumes "(k, vs) \<in> set (group_samples w)"
  shows "k \<in> label ` set w" and "vs \<noteq> []"
    and "py_max Inr vs = Inr (max_confidence w k)"
proof -
  have m: "map_of (group_samples w) k = Some vs"
    using assms distinct_keys_group_samples by (rule map_of_is_SomeI[rotated])
  show k: "k \<in> label ` set w"
    using m by (simp add: map_of_group_samples split: if_splits)
  have vs: "vs = map confidence (filter (\<lambda>s. label s = k) w)"
    using m k by (simp add: map_of_group_samples)
  from k obtain s where "s \<in> set w" "label s = k" by auto
  then have "filter (\<lambda>s. label s = k) w \<noteq> []" by (auto simp: filter_empty_conv)
  then show ne: "vs \<noteq> []" using vs by simp
  show "py_max Inr vs = Inr (max_confidence w k)"
    using py_max_Inr[OF ne] vs by (simp add: max_confidence_def)
qed

lemma confidence_le_max_confidence:
  "s \<in> set w \<Longrightarrow> confidence s \<le> max_confidence w (label s)"
  unfolding max_confidence_def by (rule Max_ge) auto

lemma decide_non_neutral:
  assumes "\<exists>s\<in>set w. label s \<noteq> ''neutral''"
  shows "\<exists>r pre post. decide be ui (group_samples w) = Inr (fst r)
      \<and> filter (\<lambda>kv. fst kv \<noteq> ''neutral'') (group_samples w) = pre @ r # post
      \<and> (\<forall>x\<in>set pre. max_confidence w (fst x) < max_confidence w (fst r))
      \<and> (\<forall>x\<in>set post. max_confidence w (fst x) \<le> max_confidence w (fst r))"
proof -
  let ?cs = "group_samples w"
  let ?NN = "filter (\<lambda>kv. fst kv \<noteq> ''neutral'') ?cs"
  let ?g = "\<lambda>item. max_confidence w (fst item)"
  from assms obtain s where s: "s \<in> set w" "label s \<noteq> ''neutral''" by blast
  then have ins: "label s \<in> fst ` set ?cs" by (simp add: set_keys_group_samples)
  then obtain kv where kv: "kv \<in> set ?cs" "fst kv = label s" by auto
  with s have "kv \<in> set ?NN" by simp
  then have nn: "?NN \<noteq> []" by (auto simp del: set_filter)
  have keys: "map fst ?cs \<noteq> [''neutral'']"
  proof
    assume "map fst ?cs = [''neutral'']"
    then have "set (map fst ?cs) = {''neutral''}" by simp
    then have "fst ` set ?cs = {''neutral''}" by simp
    with ins s(2) show False by simp
  qed
  have key: "\<forall>x\<in>set ?NN. py_max Inr (snd x) = Inr (?g x)"
  proof
    fix x assume "x \<in> set ?NN"
    then have "(fst x, snd x) \<in> set ?cs" by simp
    from group_samples_item(3)[OF this] show "py_max Inr (snd x) = Inr (?g x)" .
  qed
  show ?thesis
  proof (cases "length ?NN = 1")
    case True
    then obtain r where r: "?NN = [r]" by (cases ?NN) auto
    then have "decide be ui ?cs = Inr (fst r)" using keys by (simp add: decide_def)
    moreover have "?NN = [] @ r # []" using r by simp
    ultimately show ?thesis by (metis empty_iff empty_set)
  next
    case False
    from py_max_first_maximal[OF nn key] obtain r pre post where
      r: "py_max (\<lambda>item. py_max Inr (snd item)) ?NN = Inr r" "?NN = pre @ r # post"
         "\<forall>x\<in>set pre. ?g x < ?g r" "\<forall>x\<in>set post. ?g x \<le> ?g r" by blast
    have "decide be ui ?cs = Inr (fst r)"
      using keys False r(1) by (simp add: decide_def Let_def)
    with r(2,3,4) show ?thesis by blast
  qed
qed


lemma detect_emotion_window:
  "w \<noteq> [] \<Longrightarrow> decide be ui (group_samples w) = Inr l \<Longrightarrow>
   detect_emotion be (Response 200 (Some (window_payload w))) ui = Inr l"
  by (simp add: detect_emotion_def detect_emotion_try_window)

lemma decision_non_neutral:
  assumes "\<exists>s\<in>set w. label s \<noteq> ''neutral''"
  shows "\<exists>l. decide be ui (group_samples w) = Inr l
     \<and> l \<noteq> ''neutral'' \<and> l \<in> label ` set w
     \<and> (\<forall>s\<in>set w. label s \<noteq> ''neutral'' \<longrightarrow>
           max_confidence w (label s) \<le> max_confidence w l)
     \<and> (\<forall>l'\<in>label ` set w. l' \<noteq> ''neutral'' \<and> l' \<noteq> l
             \<and> max_confidence w l' = max_confidence w l \<longrightarrow>
           (\<exists>i<length w. label (w ! i) = l \<and> l' \<notin> label ` set (take i w)))"
proof -
  let ?cs = "group_samples w"
  let ?NN = "filter (\<lambda>kv. fst kv \<noteq> ''neutral'') ?cs"
  from decide_non_neutral[OF assms, of be ui] obtain r pre post where
    r: "decide be ui ?cs = Inr (fst r)" "?NN = pre @ r # post"
       "\<forall>x\<in>set pre. max_confidence w (fst x) < max_confidence w (fst r)"
       "\<forall>x\<in>set post. max_confidence w (fst x) \<le> max_confidence w (fst r)" by blast
  let ?l = "fst r"
  have rin: "r \<in> set ?NN" using r(2) by simp
  then have l1: "?l \<noteq> ''neutral''" and rcs: "r \<in> set ?cs" by simp_all
  have l2: "?l \<in> label ` set w"
    using rcs set_keys_group_samples[of w] by (metis imageI)
  have item: "\<exists>x\<in>set ?NN. fst x = k" if "k \<in> label ` set w" "k \<noteq> ''neutral''" for k
  proof -
    from that(1) have "k \<in> fst ` set ?cs" by (simp only: set_keys_group_samples)
    then obtain x where x: "x \<in> set ?cs" "fst x = k" by auto
    with that(2) have "x \<in> set ?NN" by simp
    with x(2) show ?thesis by blast
  qed
  have l3: "\<forall>s\<in>set w. label s \<noteq> ''neutral'' \<longrightarrow>
           max_confidence w (label s) \<le> max_confidence w ?l"
  proof (intro ballI impI)
    fix s assume s: "s \<in> set w" "label s \<noteq> ''neutral''"
    from item[of "label s"] s obtain x where x: "x \<in> set ?NN" "fst x = label s" by auto
    from x(1) r(2) have "x \<in> set pre \<or> x = r \<or> x \<in> set post" by auto
    with r(3) r(4) have "max_confidence w (fst x) \<le> max_confidence w ?l" by auto
    with x(2) show "max_confidence w (label s) \<le> max_confidence w ?l" by simp
  qed
  have l4: "\<forall>l'\<in>label ` set w. l' \<noteq> ''neutral'' \<and> l' \<noteq> ?l
             \<and> max_confidence w l' = max_confidence w ?l \<longrightarrow>
           (\<exists>i<length w. label (w ! i) = ?l \<and> l' \<notin> label ` set (take i w))"
  proof (intro ballI impI)
    fix l' assume l': "l' \<in> label ` set w"
      and h: "l' \<noteq> ''neutral'' \<and> l' \<noteq> ?l \<and> max_confidence w l' = max_confidence w ?l"
    from item[OF l'] h obtain x where x: "x \<in> set ?NN" "fst x = l'" by auto
    from x(1) r(2) have "x \<in> set pre \<or> x = r \<or> x \<in> set post" by auto
    moreover have "x \<notin> set pre" using r(3) x(2) h by auto
    moreover have "x \<noteq> r" using x(2) h by auto
    ultimately have xp: "x \<in> set post" by blast
    from filter_split[OF r(2)] obtain A B where AB: "?cs = A @ r # B" "set post \<subseteq> set B"
      by blast
    have keys: "foldl add_key [] (map label w) = map fst A @ ?l # map fst B"
      using AB(1) keys_group_samples[of w] by simp
    have "l' \<in> set (map fst B)" using xp AB(2) x(2) by auto
    from first_seen_order[OF keys this] obtain i where
      i: "i < length (map label w)" "map label w ! i = ?l"
         "l' \<notin> set (take i (map label w))" by blast
    then have "i < length w \<and> label (w ! i) = ?l \<and> l' \<notin> label ` set (take i w)"
      by (simp add: take_map)
    then show "\<exists>i<length w. label (w ! i) = ?l \<and> l' \<notin> label ` set (take i w)" by blast
  qed
  from r(1) l1 l2 l3 l4 show ?thesis by blast
qed

text \<open>
  Claim C1. For every window with at least one sample whose label is not
  \<^verbatim>\<open>neutral\<close>, \<^verbatim>\<open>detect_emotion\<close>, given the answer of the webcam service for that
  window, returns a label of the window other than \<^verbatim>\<open>neutral\<close>. No non-neutral
  sample has a confidence above the largest confidence of the returned label, so the
  returned label is one whose largest confidence is the largest; among the non-neutral
  labels with that same largest confidence it is the one met first in the window; and
  when only one non-neutral label occurs, that label is returned. Labels are compared
  after \<^verbatim>\<open>.lower()\<close>.
\<close>

theorem detect_emotion_non_neutral:
  assumes "\<exists>s\<in>set w. label s \<noteq> ''neutral''"
  shows "\<exists>l. detect_emotion be (Response 200 (Some (window_payload w))) ui = Inr l
     \<and> l \<noteq> ''neutral'' \<and> l \<in> label ` set w
     \<and> (\<forall>s\<in>set w. label s \<noteq> ''neutral'' \<longrightarrow> confidence s \<le> max_confidence w l)
     \<and> (\<forall>s\<in>set w. label s \<noteq> ''neutral'' \<longrightarrow>
           max_confidence w (label s) \<le> max_confidence w l)
     \<and> (\<forall>l'\<in>label ` set w. l' \<noteq> ''neutral'' \<and> l' \<noteq> l
             \<and> max_confidence w l' = max_confidence w l \<longrightarrow>
           (\<exists>i<length w. label (w ! i) = l \<and> l' \<notin> label ` set (take i w)))
     \<and> (\<forall>l0. (\<forall>s\<in>set w. label s \<noteq> ''neutral'' \<longrightarrow> label s = l0) \<longrightarrow> l = l0)"
proof -
  from assms have ne: "w \<noteq> []" by auto
  from decision_non_neutral[OF assms, of be ui] obtain l where
    l: "decide be ui (group_samples w) = Inr l" "l \<noteq> ''neutral''" "l \<in> label ` set w"
       "\<forall>s\<in>set w. label s \<noteq> ''neutral'' \<longrightarrow>
           max_confidence w (label s) \<le> max_confidence w l"
       "\<forall>l'\<in>label ` set w. l' \<noteq> ''neutral'' \<and> l' \<noteq> l
             \<and> max_confidence w l' = max_confidence w l \<longrightarrow>
           (\<exists>i<length w. label (w ! i) = l \<and> l' \<notin> label ` set (take i w))"
    by blast
  have d: "detect_emotion be (Response 200 (Some (window_payload w))) ui = Inr l"
    using detect_emotion_window[OF ne l(1)] .
  have c: "\<forall>s\<in>set w. label s \<noteq> ''neutral'' \<longrightarrow> confidence s \<le> max_confidence w l"
  proof (intro ballI impI)
    fix s assume s: "s \<in> set w" "label s \<noteq> ''neutral''"
    have "confidence s \<le> max_confidence w (label s)"
      using s(1) by (rule confidence_le_max_confidence)
    also have "\<dots> \<le> max_confidence w l" using l(4) s by blast
    finally show "confidence s \<le> max_confidence w l" .
  qed
  have one: "\<forall>l0. (\<forall>s\<in>set w. label s \<noteq> ''neutral'' \<longrightarrow> label s = l0) \<longrightarrow> l = l0"
    using l(2) l(3) by auto
  from d l(2) l(3) c l(4) l(5) one show ?thesis by blast
qed

theorem detect_emotion_non_neutral_witness:
  "(\<exists>s\<in>set [smp 1 ''sad'' 0.4, smp 2 ''sad'' 0.4, smp 3 ''sad'' 0.95,
              smp 4 ''angry'' 0.5, smp 5 ''angry'' 0.5]. label s \<noteq> ''neutral'')
   \<and> detect_emotion failing_bot_env
        (Response 200 (Some (window_payload
           [smp 1 ''sad'' 0.4, smp 2 ''sad'' 0.4, smp 3 ''sad'' 0.95,
            smp 4 ''angry'' 0.5, smp 5 ''angry'' 0.5]))) None = Inr ''sad''
   \<and> 0.95 \<le> max_confidence
        [smp 1 ''sad'' 0.4, smp 2 ''sad'' 0.4, smp 3 ''sad'' 0.95,
         smp 4 ''angry'' 0.5, smp 5 ''angry'' 0.5] ''sad''
   \<and> detect_emotion failing_bot_env
        (Response 200 (Some (window_payload
           [smp 1 ''angry'' 0.5, smp 2 ''sad'' 0.5, smp 3 ''neutral'' 0.95]))) None
       = Inr ''angry''"
proof -
  define w where "w = [smp 1 ''sad'' 0.4, smp 2 ''sad'' 0.4, smp 3 ''sad'' 0.95,
             smp 4 ''angry'' 0.5, smp 5 ''angry'' 0.5]"
  define s3 where "s3 = smp 3 ''sad'' 0.95"
  have s3: "s3 \<in> set w" "label s3 \<noteq> ''neutral''" "confidence s3 = 0.95"
    by (simp_all add: w_def s3_def label_def smp_def lower_def lower_char_def)
  then have h: "\<exists>s\<in>set w. label s \<noteq> ''neutral''" by blast
  have v: "detect_emotion failing_bot_env (Response 200 (Some (window_payload w))) None
           = Inr ''sad''"
    unfolding w_def
    by (simp add: detect_emotion_def detect_emotion_try_def window_payload_def
          frame_json_def smp_def read_frame_def decide_def py_max_def lower_def
          lower_char_def)
  have m: "\<forall>s\<in>set w. label s \<noteq> ''neutral'' \<longrightarrow> confidence s \<le> max_confidence w ''sad''"
    using detect_emotion_non_neutral[OF h, of failing_bot_env None] by (simp add: v)
  with s3 have c: "0.95 \<le> max_confidence w ''sad''" by auto
  have tie: "detect_emotion failing_bot_env
        (Response 200 (Some (window_payload
           [smp 1 ''angry'' 0.5, smp 2 ''sad'' 0.5, smp 3 ''neutral'' 0.95]))) None
       = Inr ''angry''"
    by (simp add: detect_emotion_def detect_emotion_try_def window_payload_def
          frame_json_def smp_def read_frame_def decide_def py_max_def lower_def
          lower_char_def)
  from h v c tie show ?thesis unfolding w_def by (intro conjI)
qed

subsection \<open>The fallback to the language model\<close>




lemma llm_emotion_fallback_range:
  "llm_emotion_fallback be ui \<in> set oracle_labels \<union> {''neutral''}"
  by (auto simp: llm_emotion_fallback_def Let_def split: chat_result.splits option.splits)





subsection \<open>Totality of the decision\<close>

lemma group_frames_unreadable:
  "\<exists>f\<in>set fs. isl (read_frame be f) \<Longrightarrow> isl (group_frames be cs fs)"
proof (induction fs arbitrary: cs)
  case Nil
  then show ?case by simp
next
  case (Cons f fs)
  show ?case
  proof (cases "read_frame be f")
    case (Inl x)
    then show ?thesis by simp
  next
    case (Inr ec)
    with Cons.prems have "\<exists>f\<in>set fs. isl (read_frame be f)" by auto
    from Cons.IH[OF this] Inr show ?thesis by (cases ec) simp
  qed
qed

lemma keys_setdefault_append_set:
  "fst ` set (setdefault_append cs emo conf) = insert emo (fst ` set cs)"
  by (induction cs emo conf rule: setdefault_append.induct) auto

lemma group_frames_keys:
  "group_frames be cs fs = Inr cs' \<Longrightarrow> k \<in> fst ` set cs' \<Longrightarrow>
   k \<in> fst ` set cs \<or> (\<exists>f\<in>set fs. \<exists>c. read_frame be f = Inr (k, c))"
proof (induction fs arbitrary: cs)
  case Nil
  then show ?case by simp
next
  case (Cons f fs)
  show ?case
  proof (cases "read_frame be f")
    case (Inl x)
    with Cons.prems show ?thesis by simp
  next
    case (Inr ec)
    obtain emo conf where ec: "ec = (emo, conf)" by (cases ec)
    from Cons.prems(1) Inr ec
    have g: "group_frames be (setdefault_append cs emo conf) fs = Inr cs'" by simp
    from Cons.IH[OF g Cons.prems(2)]
    have "k \<in> insert emo (fst ` set cs)
          \<or> (\<exists>f\<in>set fs. \<exists>c. read_frame be f = Inr (k, c))"
      by (simp only: keys_setdefault_append_set)
    then show ?thesis using Inr ec by auto
  qed
qed

lemma max_loop_mem:
  "max_loop key m v xs = Inr x \<Longrightarrow> x = m \<or> x \<in> set xs"
proof (induction xs arbitrary: m v)
  case Nil
  then show ?case by simp
next
  case (Cons y ys)
  show ?case
  proof (cases "key y")
    case (Inl e)
    with Cons.prems show ?thesis by simp
  next
    case (Inr val)
    show ?thesis
    proof (cases "val > v")
      case True
      with Cons.prems Inr have "max_loop key y val ys = Inr x" by simp
      from Cons.IH[OF this] show ?thesis by auto
    next
      case False
      with Cons.prems Inr have "max_loop key m v ys = Inr x" by simp
      from Cons.IH[OF this] show ?thesis by auto
    qed
  qed
qed

lemma py_max_mem: "py_max key xs = Inr x \<Longrightarrow> x \<in> set xs"
proof (cases xs)
  case Nil
  assume "py_max key xs = Inr x"
  with Nil show ?thesis by (simp add: py_max_def)
next
  case (Cons y ys)
  assume a: "py_max key xs = Inr x"
  show ?thesis
  proof (cases "key y")
    case (Inl e)
    with a Cons show ?thesis by (simp add: py_max_def)
  next
    case (Inr val)
    with a Cons have "max_loop key y val ys = Inr x" by (simp add: py_max_def)
    from max_loop_mem[OF this] Cons show ?thesis by auto
  qed
qed

lemma decide_range:
  assumes "decide be ui cs = Inr l"
  shows "l = llm_emotion_fallback be ui \<or> l \<in> fst ` set cs"
proof (cases "map fst cs = [''neutral'']")
  case True
  with assms show ?thesis by (simp add: decide_def)
next
  case False
  let ?NN = "filter (\<lambda>kv. fst kv \<noteq> ''neutral'') cs"
  show ?thesis
  proof (cases "length ?NN = 1")
    case True
    then obtain kv where kv: "?NN = [kv]" by (cases ?NN) auto
    then have "kv \<in> set ?NN" by simp
    then have "kv \<in> set cs" by simp
    moreover from assms False kv have "l = fst kv" by (simp add: decide_def)
    ultimately show ?thesis by auto
  next
    case F2: False
    from assms False F2 obtain best where
      b: "py_max (\<lambda>item. py_max Inr (snd item)) ?NN = Inr best" "l = fst best"
      by (auto simp: decide_def Let_def split: sum.splits)
    from py_max_mem[OF b(1)] have "best \<in> set cs" by simp
    with b(2) show ?thesis by auto
  qed
qed

lemma oracle_labels_subset_CLASSES: "set oracle_labels \<union> {''neutral''} \<subseteq> set CLASSES"
  by (simp add: oracle_labels_def CLASSES_def)

lemma detect_emotion_try_cases:
  assumes "detect_emotion_try be http ui = Inr l"
  shows "l = ''neutral''
       \<or> (\<exists>cs. group_frames be [] (frames_of http) = Inr cs \<and> decide be ui cs = Inr l)"
  using assms
  by (auto simp: detect_emotion_try_def frames_of_def
           split: http_result.splits option.splits sum.splits if_splits)

lemma detect_emotion_returns: "\<exists>l. detect_emotion be http ui = Inr l"
  by (simp add: detect_emotion_def split: sum.splits)

lemma detect_emotion_neutral_or_try:
  "detect_emotion be http ui = Inr l \<Longrightarrow>
   l = ''neutral'' \<or> detect_emotion_try be http ui = Inr l"
  by (auto simp: detect_emotion_def split: sum.splits)

lemma detect_emotion_unreadable:
  assumes "\<exists>f\<in>set (frames_of http). isl (read_frame be f)"
  shows "detect_emotion be http ui = Inr ''neutral''"
proof -
  from group_frames_unreadable[OF assms, of "[]"] obtain x where
    g: "group_frames be [] (frames_of http) = Inl x"
    by (cases "group_frames be [] (frames_of http)") auto
  have "detect_emotion_try be http ui = Inr l \<Longrightarrow> l = ''neutral''" for l
    using detect_emotion_try_cases[of be http ui l] g by auto
  then show ?thesis
    by (cases "detect_emotion_try be http ui") (auto simp: detect_emotion_def)
qed

lemma detect_emotion_in_CLASSES:
  assumes "\<forall>f\<in>set (frames_of http). \<forall>emo c. read_frame be f = Inr (emo, c) \<longrightarrow>
             emo \<in> set CLASSES"
  shows "\<exists>l\<in>set CLASSES. detect_emotion be http ui = Inr l"
proof -
  obtain l where l: "detect_emotion be http ui = Inr l"
    using detect_emotion_returns by blast
  have n: "''neutral'' \<in> set CLASSES" by (simp add: CLASSES_def)
  have "l \<in> set CLASSES"
  proof (cases "l = ''neutral''")
    case True
    with n show ?thesis by simp
  next
    case False
    with detect_emotion_neutral_or_try[OF l]
    have "detect_emotion_try be http ui = Inr l" by simp
    from detect_emotion_try_cases[OF this] False obtain cs where
      cs: "group_frames be [] (frames_of http) = Inr cs" "decide be ui cs = Inr l" by auto
    from decide_range[OF cs(2)] show ?thesis
    proof
      assume "l = llm_emotion_fallback be ui"
      then show ?thesis
        using llm_emotion_fallback_range[of be ui] oracle_labels_subset_CLASSES by auto
    next
      assume "l \<in> fst ` set cs"
      from group_frames_keys[OF cs(1) this] obtain f c where
        "f \<in> set (frames_of http)" "read_frame be f = Inr (l, c)" by auto
      with assms show ?thesis by blast
    qed
  qed
  with l show ?thesis by blast
qed

text \<open>
  Claim C10, as stated, fails in its last part: the label of a frame is not checked
  against any list, so a response whose only frame carries the label \<^verbatim>\<open>bored\<close>
  makes \<^verbatim>\<open>detect_emotion\<close> return \<^verbatim>\<open>bored\<close>, which is not one of the seven
  labels.
\<close>

theorem detect_emotion_passes_unknown_label:
  "detect_emotion failing_bot_env
     (Response 200 (Some (JObj [(''data'',
        JArr [JObj [(''emotion'', JStr ''bored''), (''confidence'', JNum 1)]])]))) None
     = Inr ''bored''
   \<and> ''bored'' \<notin> set CLASSES"
  by (simp add: detect_emotion_def detect_emotion_try_def read_frame_def decide_def
        lower_def lower_char_def CLASSES_def)

text \<open>
  Claim C10, amended. \<^verbatim>\<open>detect_emotion\<close> returns a string for every outcome of the
  request and never raises. It returns \<^verbatim>\<open>neutral\<close> when the request raises, when
  the status is not 200, when the body is not JSON, when the payload is not an object
  or has no \<^verbatim>\<open>data\<close>, when \<^verbatim>\<open>data\<close> is empty (an empty window) or cannot be
  iterated, and when some frame cannot be read (no \<^verbatim>\<open>emotion\<close> or
  \<^verbatim>\<open>confidence\<close>, a label that is not a string, a confidence that is not a number).
  The returned string is one of the seven labels of \<^verbatim>\<open>CLASSES\<close> whenever the label
  of every readable frame, in lower case, is one of them.
\<close>

theorem detect_emotion_total:
  "(\<exists>l. detect_emotion be http ui = Inr l)
   \<and> detect_emotion be (Raised x) ui = Inr ''neutral''
   \<and> (code \<noteq> 200 \<longrightarrow> detect_emotion be (Response code body) ui = Inr ''neutral'')
   \<and> detect_emotion be (Response 200 None) ui = Inr ''neutral''
   \<and> ((\<forall>kvs. payload \<noteq> JObj kvs) \<longrightarrow>
         detect_emotion be (Response 200 (Some payload)) ui = Inr ''neutral'')
   \<and> (map_of kvs ''data'' = None \<longrightarrow>
         detect_emotion be (Response 200 (Some (JObj kvs))) ui = Inr ''neutral'')
   \<and> (\<forall>d. map_of kvs ''data'' = Some d \<and> (\<not> truthy d \<or> isl (py_iter d)) \<longrightarrow>
         detect_emotion be (Response 200 (Some (JObj kvs))) ui = Inr ''neutral'')
   \<and> detect_emotion be (Response 200 (Some (window_payload []))) ui = Inr ''neutral''
   \<and> ((\<exists>f\<in>set (frames_of http). isl (read_frame be f)) \<longrightarrow>
         detect_emotion be http ui = Inr ''neutral'')
   \<and> ((\<forall>f\<in>set (frames_of http). \<forall>emo c. read_frame be f = Inr (emo, c) \<longrightarrow>
            emo \<in> set CLASSES) \<longrightarrow>
         (\<exists>l\<in>set CLASSES. detect_emotion be http ui = Inr l))"
proof (intro conjI impI allI)
  show "\<exists>l. detect_emotion be http ui = Inr l" by (rule detect_emotion_returns)
  show "detect_emotion be (Raised x) ui = Inr ''neutral''"
    by (simp add: detect_emotion_def detect_emotion_try_def)
  show "detect_emotion be (Response code body) ui = Inr ''neutral''" if "code \<noteq> 200"
    using that by (simp add: detect_emotion_def detect_emotion_try_def)
  show "detect_emotion be (Response 200 None) ui = Inr ''neutral''"
    by (simp add: detect_emotion_def detect_emotion_try_def)
  show "detect_emotion be (Response 200 (Some payload)) ui = Inr ''neutral''"
    if "\<forall>kvs. payload \<noteq> JObj kvs"
    using that by (cases payload) (simp_all add: detect_emotion_def detect_emotion_try_def)
  show "detect_emotion be (Response 200 (Some (JObj kvs))) ui = Inr ''neutral''"
    if "map_of kvs ''data'' = None"
    using that by (simp add: detect_emotion_def detect_emotion_try_def)
  show "detect_emotion be (Response 200 (Some (JObj kvs))) ui = Inr ''neutral''"
    if "map_of kvs ''data'' = Some d \<and> (\<not> truthy d \<or> isl (py_iter d))" for d
    using that
    by (auto simp: detect_emotion_def detect_emotion_try_def split: sum.splits)
  show "detect_emotion be (Response 200 (Some (window_payload []))) ui = Inr ''neutral''"
    by (simp add: detect_emotion_def detect_emotion_try_def window_payload_def)
  show "detect_emotion be http ui = Inr ''neutral''"
    if "\<exists>f\<in>set (frames_of http). isl (read_frame be f)"
    using that by (rule detect_emotion_unreadable)
  show "\<exists>l\<in>set CLASSES. detect_emotion be http ui = Inr l"
    if "\<forall>f\<in>set (frames_of http). \<forall>emo c. read_frame be f = Inr (emo, c) \<longrightarrow>
            emo \<in> set CLASSES"
    using that by (rule detect_emotion_in_CLASSES)
qed

theorem detect_emotion_total_witness:
  "(\<exists>f\<in>set (frames_of (Response 200 (Some (JObj [(''data'', JStr ''abc'')])))).
        isl (read_frame failing_bot_env f))
   \<and> detect_emotion failing_bot_env
         (Response 200 (Some (JObj [(''data'', JStr ''abc'')]))) None = Inr ''neutral''
   \<and> (404 :: int) \<noteq> 200
   \<and> detect_emotion failing_bot_env (Response 404 None) None = Inr ''neutral''
   \<and> map_of [(''window_size'', JNum 0)] ''data'' = None
   \<and> detect_emotion failing_bot_env
         (Response 200 (Some (JObj [(''window_size'', JNum 0)]))) None = Inr ''neutral''"
proof -
  define http where "http = Response 200 (Some (JObj [(''data'', JStr ''abc'')]))"
  have h: "\<exists>f\<in>set (frames_of http). isl (read_frame failing_bot_env f)"
    by (simp add: http_def frames_of_def read_frame_def)
  have c: "(404 :: int) \<noteq> 200" by simp
  have m: "map_of [(''window_size'', JNum 0)] ''data'' = None" by simp
  note t = detect_emotion_total [where be = failing_bot_env and http = http and ui = None
      and code = 404 and body = None and kvs = "[(''window_size'', JNum 0)]"]
  have v1: "detect_emotion failing_bot_env http None = Inr ''neutral''"
    using t h by blast
  have v2: "detect_emotion failing_bot_env (Response 404 None) None = Inr ''neutral''"
    using t c by blast
  have v3: "detect_emotion failing_bot_env
         (Response 200 (Some (JObj [(''window_size'', JNum 0)]))) None = Inr ''neutral''"
    using t m by blast
  from h v1 c v2 m v3 show ?thesis unfolding http_def by (intro conjI)
qed

end
